theory Spec2Isabelle
  imports Complex_Main
begin

section \<open>script.js: reference validation\<close>

text \<open>
  JavaScript strings are modelled as \<open>string\<close>; a \<open>char\<close> stands for a code unit below 256.
  The regular expression of \<open>isValidReference\<close> is written as a value of a small
  datatype of regular expressions, and \<open>RegExp.prototype.test\<close> on an expression anchored
  by \<open>^\<close> and \<open>$\<close> is membership of the whole string, decided by derivatives.
\<close>

datatype regex =
    Null
  | Eps
  | Cls "char \<Rightarrow> bool"
  | Seq regex regex
  | Alt regex regex
  | Star regex

definition Opt :: "regex \<Rightarrow> regex" where
  "Opt r = Alt r Eps"

definition Plus :: "regex \<Rightarrow> regex" where
  "Plus r = Seq r (Star r)"

text \<open>\<open>r{1,3}\<close>: one, two or three repetitions.\<close>

definition Rep1to3 :: "regex \<Rightarrow> regex" where
  "Rep1to3 r = Seq r (Opt (Seq r (Opt r)))"

primrec nullable :: "regex \<Rightarrow> bool" where
  "nullable Null = False"
| "nullable Eps = True"
| "nullable (Cls p) = False"
| "nullable (Seq r s) = (nullable r \<and> nullable s)"
| "nullable (Alt r s) = (nullable r \<or> nullable s)"
| "nullable (Star r) = True"

primrec deriv :: "char \<Rightarrow> regex \<Rightarrow> regex" where
  "deriv c Null = Null"
| "deriv c Eps = Null"
| "deriv c (Cls p) = (if p c then Eps else Null)"
| "deriv c (Seq r s) =
     (if nullable r then Alt (Seq (deriv c r) s) (deriv c s) else Seq (deriv c r) s)"
| "deriv c (Alt r s) = Alt (deriv c r) (deriv c s)"
| "deriv c (Star r) = Seq (deriv c r) (Star r)"

primrec regexTest :: "regex \<Rightarrow> string \<Rightarrow> bool" where
  "regexTest r [] = nullable r"
| "regexTest r (c # cs) = regexTest (deriv c r) cs"

text \<open>Character classes, by code unit.\<close>

definition code :: "char \<Rightarrow> nat" where
  "code c = of_char c"

definition cls_1to3 :: "char \<Rightarrow> bool" where
  "cls_1to3 c = (49 \<le> code c \<and> code c \<le> 51)"

definition cls_digit :: "char \<Rightarrow> bool" where
  "cls_digit c = (48 \<le> code c \<and> code c \<le> 57)"

definition cls_letter_space :: "char \<Rightarrow> bool" where
  "cls_letter_space c =
     ((65 \<le> code c \<and> code c \<le> 90) \<or> (97 \<le> code c \<and> code c \<le> 122) \<or> code c = 32)"

text \<open>
  \<open>\s\<close> and the characters \<open>trim\<close> strips: tab, line feed, vertical tab, form feed,
  carriage return, space and no-break space (the white space and line terminators
  below code unit 256).
\<close>

definition cls_space :: "char \<Rightarrow> bool" where
  "cls_space c = ((9 \<le> code c \<and> code c \<le> 13) \<or> code c = 32 \<or> code c = 160)"

definition cls_colon :: "char \<Rightarrow> bool" where
  "cls_colon c = (code c = 58)"

definition trim :: "string \<Rightarrow> string" where
  "trim s = rev (dropWhile cls_space (rev (dropWhile cls_space s)))"

text \<open>\<^verbatim>\<open>/^[1-3]?\s?[A-Za-z ]+\s\d{1,3}:\d{1,3}$/\<close>\<close>

definition simpleRegex :: regex where
  "simpleRegex =
     Seq (Opt (Cls cls_1to3))
    (Seq (Opt (Cls cls_space))
    (Seq (Plus (Cls cls_letter_space))
    (Seq (Cls cls_space)
    (Seq (Rep1to3 (Cls cls_digit))
    (Seq (Cls cls_colon)
         (Rep1to3 (Cls cls_digit)))))))"

definition isValidReference :: "string \<Rightarrow> bool" where
  "isValidReference reference = regexTest simpleRegex (trim reference)"

section \<open>script.js: rendering a remaining time\<close>

text \<open>
  A JavaScript number is \<open>NaN\<close> (\<open>None\<close>) or an integer number of milliseconds, as the
  difference of two time values is. Number-to-string conversion of a natural number is
  its decimal numeral.
\<close>

definition digitChar :: "nat \<Rightarrow> char" where
  "digitChar d = ''0123456789'' ! d"

function showNat :: "nat \<Rightarrow> string" where
  "showNat n = (if n < 10 then [digitChar n] else showNat (n div 10) @ [digitChar (n mod 10)])"
  by pat_completeness auto
termination
  by (relation "measure id") auto

declare showNat.simps [simp del]

definition formatRemaining :: "int option \<Rightarrow> string" where
  "formatRemaining ms =
     (case ms of
        None \<Rightarrow> ''Invalid date''
      | Some v \<Rightarrow>
          (let totalSeconds = nat (max 0 (v div 1000));
               days = totalSeconds div 86400;
               hours = (totalSeconds mod 86400) div 3600;
               minutes = (totalSeconds mod 3600) div 60;
               seconds = totalSeconds mod 60
           in showNat days @ ''d '' @ showNat hours @ ''h '' @ showNat minutes @ ''m '' @
              showNat seconds @ ''s''))"

section \<open>script.js: countdowns of dated events and the next-event banner\<close>

text \<open>
  An event card of the page: the value of its \<open>data-date\<close> attribute (\<open>None\<close> when
  \<open>getAttribute\<close> gives \<open>null\<close>), whether it has a \<open>.countdown\<close> element, and the text of
  its \<open>h3\<close> element (\<open>None\<close> when there is none). Time values are integer milliseconds.
  \<open>new Date(dateStr)\<close> on a string is the host's parser, a parameter \<open>parseDate\<close> that
  gives \<open>None\<close> for an Invalid Date.
\<close>

record card =
  dataDate :: "string option"
  hasCountdown :: bool
  h3Text :: "string option"

text \<open>
  What the \<open>forEach\<close> callback of \<open>updateCountdowns\<close> does to one card, one constructor for
  each of its branches.
\<close>

datatype view = NoElement | NoDateSet | InvalidDateFormat | HappeningNow | EventEnded | StartsIn int

text \<open>The text written to the card's countdown element, and the class added to the card.\<close>

fun viewText :: "view \<Rightarrow> string option" where
  "viewText NoElement = None"
| "viewText NoDateSet = Some ''No date set''"
| "viewText InvalidDateFormat = Some ''Invalid date format''"
| "viewText HappeningNow = Some ''Happening now''"
| "viewText EventEnded = Some ''Event ended''"
| "viewText (StartsIn d) = Some (''Starts in '' @ formatRemaining (Some d))"

fun viewClass :: "view \<Rightarrow> string option" where
  "viewClass HappeningNow = Some ''today''"
| "viewClass EventEnded = Some ''past''"
| "viewClass v = None"

text \<open>
  An element of \<open>upcoming\<close>. The card it refers to is kept as the card's position in
  the list of cards.
\<close>

record entry =
  cardIx :: nat
  eventDate :: int
  diff :: int

text \<open>
  The callback on the card at position \<open>i\<close>: the branch taken, and the entry pushed onto
  \<open>upcoming\<close> if any.
\<close>

definition cardCallback ::
  "(string \<Rightarrow> int option) \<Rightarrow> int \<Rightarrow> nat \<times> card \<Rightarrow> view \<times> entry option" where
  "cardCallback parseDate now ic =
     (let i = fst ic; c = snd ic
      in if \<not> hasCountdown c then (NoElement, None)
         else case dataDate c of
           None \<Rightarrow> (NoDateSet, None)
         | Some dateStr \<Rightarrow>
             if dateStr = [] then (NoDateSet, None)
             else case parseDate dateStr of
               None \<Rightarrow> (InvalidDateFormat, None)
             | Some date \<Rightarrow>
                 (let d = date - now
                  in if d \<le> 0
                     then (if \<bar>d\<bar> < 3 * 3600 * 1000 then (HappeningNow, None)
                           else (EventEnded, None))
                     else (StartsIn d, Some \<lparr>cardIx = i, eventDate = date, diff = d\<rparr>)))"

definition cardView :: "(string \<Rightarrow> int option) \<Rightarrow> int \<Rightarrow> card \<Rightarrow> view" where
  "cardView parseDate now c = fst (cardCallback parseDate now (0, c))"

definition upcoming :: "(string \<Rightarrow> int option) \<Rightarrow> int \<Rightarrow> card list \<Rightarrow> entry list" where
  "upcoming parseDate now cards =
     List.map_filter (\<lambda>ic. snd (cardCallback parseDate now ic)) (enumerate 0 cards)"

text \<open>
  \<open>upcoming.sort((a, b) => a.eventDate - b.eventDate)\<close> is a stable sort by \<open>eventDate\<close>, and
  \<open>next\<close> is its first element; there is no \<open>next\<close> when \<open>upcoming\<close> is empty.
\<close>

definition selectNext :: "entry list \<Rightarrow> entry option" where
  "selectNext ups = (if length ups = 0 then None else Some (sort_key eventDate ups ! 0))"

text \<open>
  The banner: the fixed phrase, or the title, the host's rendering of the date
  (\<open>toLocaleString\<close>, a parameter) and the remaining time, which the source joins into
  one line of text.
\<close>

datatype banner = Phrase string | NextEvent string string string

definition nextTitle :: "card \<Rightarrow> string" where
  "nextTitle c = (case h3Text c of None \<Rightarrow> ''Next Event''
                  | Some t \<Rightarrow> if t = [] then ''Next Event'' else t)"

definition nextBanner :: "(int \<Rightarrow> string) \<Rightarrow> card list \<Rightarrow> entry option \<Rightarrow> banner" where
  "nextBanner toLocaleString cards sel =
     (case sel of
        None \<Rightarrow> Phrase ''No upcoming events.''
      | Some next \<Rightarrow>
          NextEvent (nextTitle (cards ! cardIx next)) (toLocaleString (eventDate next))
            (''Starts in '' @ formatRemaining (Some (diff next))))"

text \<open>
  One pass: the view of every card, and the banner when the page has the
  \<open>next-event-banner\<close> element.
\<close>

definition updateCountdowns ::
  "(string \<Rightarrow> int option) \<Rightarrow> (int \<Rightarrow> string) \<Rightarrow> bool \<Rightarrow> int \<Rightarrow> card list \<Rightarrow> view list \<times> banner option" where
  "updateCountdowns parseDate toLocaleString hasBanner now cards =
     (map (\<lambda>ic. fst (cardCallback parseDate now ic)) (enumerate 0 cards),
      if hasBanner
      then Some (nextBanner toLocaleString cards (selectNext (upcoming parseDate now cards)))
      else None)"

section \<open>part_000: fetchWithRetry\<close>

text \<open>
  A response carries the fields the wrapper reads. One call of \<open>fetcher\<close> resolves to a
  response or rejects with an error; an operation is the sequence of what its calls give,
  \<open>fetcher i\<close> for the call made in iteration \<open>i\<close>. \<open>random i\<close> is the value of
  \<open>Math.random()\<close> in iteration \<open>i\<close>; delays are real numbers of milliseconds.
\<close>

record response =
  ok :: bool
  status :: nat
  statusText :: string

datatype error = ApiCallFailed nat string | FetchFailed string

datatype fetched = Resolved response | Rejected error

text \<open>\<open>Returned None\<close> is the \<open>undefined\<close> of a loop that ends without returning.\<close>

datatype outcome = Returned "response option" | Thrown error

record run =
  outcome :: outcome
  attempts :: nat
  delays :: "real list"

definition MAX_RETRIES :: int where
  "MAX_RETRIES = 5"

definition backoff :: "(nat \<Rightarrow> real) \<Rightarrow> nat \<Rightarrow> real" where
  "backoff random i = 2 ^ i * 1000 + random i * 1000"

text \<open>One more call of \<open>fetcher\<close> has been made, and \<open>delay\<close> slept, before the rest of the run.\<close>

definition sleepThen :: "real \<Rightarrow> run \<Rightarrow> run" where
  "sleepThen delay rest = rest\<lparr>attempts := Suc (attempts rest), delays := delay # delays rest\<rparr>"

definition finish :: "outcome \<Rightarrow> run" where
  "finish res = \<lparr>outcome = res, attempts = 1, delays = []\<rparr>"

text \<open>
  The \<open>for\<close> loop from iteration \<open>i\<close> on. The \<open>throw\<close> of the last branch of the \<open>try\<close>
  block is caught by the \<open>catch\<close> below it, as a rejection of \<open>fetcher\<close> is.
\<close>

function fetchLoop :: "(nat \<Rightarrow> fetched) \<Rightarrow> (nat \<Rightarrow> real) \<Rightarrow> int \<Rightarrow> nat \<Rightarrow> run" where
  "fetchLoop fetcher random maxRetries i =
     (if int i < maxRetries then
        (case fetcher i of
           Resolved response \<Rightarrow>
             if ok response then finish (Returned (Some response))
             else if status response = 429 \<and> int i < maxRetries - 1 then
               sleepThen (backoff random i) (fetchLoop fetcher random maxRetries (Suc i))
             else if int i = maxRetries - 1 then
               finish (Thrown (ApiCallFailed (status response) (statusText response)))
             else sleepThen (backoff random i) (fetchLoop fetcher random maxRetries (Suc i))
         | Rejected e \<Rightarrow>
             if int i = maxRetries - 1 then finish (Thrown e)
             else sleepThen (backoff random i) (fetchLoop fetcher random maxRetries (Suc i)))
      else \<lparr>outcome = Returned None, attempts = 0, delays = []\<rparr>)"
  by pat_completeness auto
termination
  by (relation "measure (\<lambda>(fetcher, random, maxRetries, i). nat (maxRetries - int i))") auto

declare fetchLoop.simps [simp del]

definition fetchWithRetry :: "(nat \<Rightarrow> fetched) \<Rightarrow> (nat \<Rightarrow> real) \<Rightarrow> int \<Rightarrow> run" where
  "fetchWithRetry fetcher random maxRetries = fetchLoop fetcher random maxRetries 0"

section \<open>part_000: countdowns in days and the next-event banner\<close>

text \<open>
  Here \<open>new Date(dateStr)\<close> is applied to the attribute as it is: \<open>null\<close> gives the time
  value 0, a string goes to the host's parser. A time value \<open>None\<close> is \<open>NaN\<close>.
  \<open>nextEventTimeDiff\<close> is \<open>None\<close> while it is \<open>Infinity\<close>.
\<close>

definition ceilDays :: "int \<Rightarrow> int" where
  "ceilDays timeDiff = - ((- timeDiff) div (1000 * 3600 * 24))"

definition showNumber :: "int \<Rightarrow> string" where
  "showNumber n = (if n < 0 then ''-'' @ showNat (nat (- n)) else showNat (nat n))"

record nextEvent =
  title :: string
  date :: string
  days :: int

record tracker =
  nextEvent :: "nextEvent option"
  nextEventTimeDiff :: "int option"

datatype domError = TypeError

text \<open>The text of the countdown element and the class added to the card.\<close>

type_synonym shown = "string \<times> string option"

text \<open>\<open>new Date(dateStr).getTime()\<close> for the attribute of a card.\<close>

definition eventTime :: "(string \<Rightarrow> int option) \<Rightarrow> card \<Rightarrow> int option" where
  "eventTime parseDate c = (case dataDate c of None \<Rightarrow> Some 0 | Some dateStr \<Rightarrow> parseDate dateStr)"

definition cardStep ::
  "(string \<Rightarrow> int option) \<Rightarrow> (int \<Rightarrow> string) \<Rightarrow> int \<Rightarrow> card \<Rightarrow> tracker \<Rightarrow> domError + shown \<times> tracker" where
  "cardStep parseDate toLocaleDateString now c st =
     (case eventTime parseDate c of
        None \<Rightarrow>
          \<comment> \<open>\<open>timeDiff\<close> and \<open>daysDiff\<close> are \<open>NaN\<close>: every comparison with them is false\<close>
          if hasCountdown c then Inr ((''in '' @ ''NaN'' @ '' days'', None), st)
          else Inl TypeError
      | Some eventDate' \<Rightarrow>
          (let timeDiff = eventDate' - now;
               daysDiff = ceilDays timeDiff
           in if timeDiff \<le> 0 then
                (if hasCountdown c then Inr ((''Event Concluded'', Some ''past''), st)
                 else Inl TypeError)
              else
                (let sh = (if daysDiff = 0 then (''Happening TODAY!'', Some ''today'')
                           else if daysDiff = 1 then (''Tomorrow!'', None)
                           else (''in '' @ showNumber daysDiff @ '' days'', None))
                 in if \<not> hasCountdown c then Inl TypeError
                    else if (case nextEventTimeDiff st of None \<Rightarrow> True | Some d \<Rightarrow> timeDiff < d)
                    then (case h3Text c of
                            None \<Rightarrow> Inl TypeError
                          | Some t \<Rightarrow>
                              Inr (sh, \<lparr>nextEvent = Some \<lparr>title = t,
                                                           date = toLocaleDateString eventDate',
                                                           days = daysDiff\<rparr>,
                                        nextEventTimeDiff = Some timeDiff\<rparr>))
                    else Inr (sh, st))))"

fun forEachCard ::
  "(string \<Rightarrow> int option) \<Rightarrow> (int \<Rightarrow> string) \<Rightarrow> int \<Rightarrow> card list \<Rightarrow> tracker \<Rightarrow>
   domError + shown list \<times> tracker" where
  "forEachCard parseDate toLocaleDateString now [] st = Inr ([], st)"
| "forEachCard parseDate toLocaleDateString now (c # cs) st =
     (case cardStep parseDate toLocaleDateString now c st of
        Inl e \<Rightarrow> Inl e
      | Inr (sh, st') \<Rightarrow>
          (case forEachCard parseDate toLocaleDateString now cs st' of
             Inl e \<Rightarrow> Inl e
           | Inr (shs, st'') \<Rightarrow> Inr (sh # shs, st'')))"

definition bannerOf :: "nextEvent option \<Rightarrow> banner" where
  "bannerOf ne =
     (case ne of
        Some n \<Rightarrow> NextEvent (title n) (date n)
                    (if days n > 0 then ''in '' @ showNumber (days n) @ '' days'' else ''TODAY'')
      | None \<Rightarrow> Phrase ''No upcoming events scheduled.'')"

definition updateCountdowns_part000 ::
  "(string \<Rightarrow> int option) \<Rightarrow> (int \<Rightarrow> string) \<Rightarrow> bool \<Rightarrow> int \<Rightarrow> card list \<Rightarrow>
   domError + shown list \<times> tracker \<times> banner" where
  "updateCountdowns_part000 parseDate toLocaleDateString hasBanner now cards =
     (case forEachCard parseDate toLocaleDateString now cards
             \<lparr>nextEvent = None, nextEventTimeDiff = None\<rparr> of
        Inl e \<Rightarrow> Inl e
      | Inr (shs, st) \<Rightarrow>
          if hasBanner then Inr (shs, st, bannerOf (nextEvent st)) else Inl TypeError)"

section \<open>part_001: the next weekly worship and prayer\<close>

text \<open>
  A \<open>Date\<close> is its time value, in milliseconds. The host's time zone is a parameter:
  \<open>utcOffset z t\<close> is the offset of local time in force at the instant \<open>t\<close>, and
  \<open>localOffset z t\<close> the offset by which the host reads the local time value \<open>t\<close>
  (the two arguments of \<open>LocalTZA\<close> in the language standard). The offsets may change
  with daylight saving. The functions below carry the standard's names.
\<close>

record zone =
  utcOffset :: "int \<Rightarrow> int"
  localOffset :: "int \<Rightarrow> int"

definition msPerDay :: int where
  "msPerDay = 86400000"

definition LocalTime :: "zone \<Rightarrow> int \<Rightarrow> int" where
  "LocalTime z t = t + utcOffset z t"

definition UTC :: "zone \<Rightarrow> int \<Rightarrow> int" where
  "UTC z t = t - localOffset z t"

definition Day :: "int \<Rightarrow> int" where
  "Day t = t div msPerDay"

definition TimeWithinDay :: "int \<Rightarrow> int" where
  "TimeWithinDay t = t mod msPerDay"

text \<open>Day 0 is a Thursday.\<close>

definition WeekDay :: "int \<Rightarrow> int" where
  "WeekDay t = (Day t + 4) mod 7"

definition HourFromTime :: "int \<Rightarrow> int" where
  "HourFromTime t = (t div 3600000) mod 24"

definition MinFromTime :: "int \<Rightarrow> int" where
  "MinFromTime t = (t div 60000) mod 60"

definition SecFromTime :: "int \<Rightarrow> int" where
  "SecFromTime t = (t div 1000) mod 60"

definition msFromTime :: "int \<Rightarrow> int" where
  "msFromTime t = t mod 1000"

definition MakeTime :: "int \<Rightarrow> int \<Rightarrow> int \<Rightarrow> int \<Rightarrow> int" where
  "MakeTime h m s ms = h * 3600000 + m * 60000 + s * 1000 + ms"

definition MakeDate :: "int \<Rightarrow> int \<Rightarrow> int" where
  "MakeDate day time = day * msPerDay + time"

definition getDay :: "zone \<Rightarrow> int \<Rightarrow> int" where
  "getDay z t = WeekDay (LocalTime z t)"

definition getHours :: "zone \<Rightarrow> int \<Rightarrow> int" where
  "getHours z t = HourFromTime (LocalTime z t)"

definition getMinutes :: "zone \<Rightarrow> int \<Rightarrow> int" where
  "getMinutes z t = MinFromTime (LocalTime z t)"

definition getSeconds :: "zone \<Rightarrow> int \<Rightarrow> int" where
  "getSeconds z t = SecFromTime (LocalTime z t)"

definition getMilliseconds :: "zone \<Rightarrow> int \<Rightarrow> int" where
  "getMilliseconds z t = msFromTime (LocalTime z t)"

text \<open>
  \<open>d.setDate(now.getDate() + n)\<close> on a copy \<open>d\<close> of \<open>now\<close>. The standard takes the local
  time of \<open>d\<close>, makes the day from its year, its month and the new day of the month,
  which the calendar carries through the ends of months and years to the day number
  of \<open>d\<close> plus \<open>n\<close>, keeps the time within the day, and converts back with \<open>UTC\<close>.
\<close>

definition setDatePlus :: "zone \<Rightarrow> int \<Rightarrow> int \<Rightarrow> int" where
  "setDatePlus z t n =
     UTC z (MakeDate (Day (LocalTime z t) + n) (TimeWithinDay (LocalTime z t)))"

text \<open>\<open>d.setHours(h, m, s, ms)\<close>: the local day of \<open>d\<close> at the given time, converted back.\<close>

definition setHours :: "zone \<Rightarrow> int \<Rightarrow> int \<Rightarrow> int \<Rightarrow> int \<Rightarrow> int \<Rightarrow> int" where
  "setHours z t h m s ms = UTC z (MakeDate (Day (LocalTime z t)) (MakeTime h m s ms))"

text \<open>
  The operands of \<open>%\<close> below are never negative, so it is \<open>mod\<close>. The branch
  \<open>else if (daysUntilNextSunday === 0) daysUntilNextSunday = 0\<close> changes nothing.
\<close>

definition nextWorship :: "zone \<Rightarrow> int \<Rightarrow> int" where
  "nextWorship z now =
     (let currentDay = getDay z now;
          daysUntilNextSunday = (7 - currentDay) mod 7;
          daysUntilNextSunday =
            (if daysUntilNextSunday = 0 \<and>
                (getHours z now > 10 \<or> (getHours z now = 10 \<and> getMinutes z now \<ge> 30))
             then 7
             else if daysUntilNextSunday = 0 then 0
             else daysUntilNextSunday)
      in setHours z (setDatePlus z now daysUntilNextSunday) 10 30 0 0)"

definition nextPrayer :: "zone \<Rightarrow> int \<Rightarrow> int" where
  "nextPrayer z now =
     (let currentDay = getDay z now;
          daysUntilNextFriday = (5 - currentDay + 7) mod 7;
          daysUntilNextFriday =
            (if daysUntilNextFriday = 0 \<and>
                (getHours z now > 19 \<or> (getHours z now = 19 \<and> getMinutes z now \<ge> 0))
             then 7
             else if daysUntilNextFriday = 0 then 0
             else daysUntilNextFriday)
      in setHours z (setDatePlus z now daysUntilNextFriday) 19 0 0 0)"

text \<open>The two target dates that \<open>updateCountdowns\<close> hands to \<open>displayCountdown\<close>.\<close>

definition updateCountdowns_part001 :: "zone \<Rightarrow> int \<Rightarrow> int \<times> int" where
  "updateCountdowns_part001 z now = (nextWorship z now, nextPrayer z now)"

text \<open>
  An occurrence of a weekly event: an instant on the given week day whose local time of
  day is the given hour and minute, to the millisecond.
\<close>

definition isOccurrence :: "zone \<Rightarrow> int \<Rightarrow> int \<Rightarrow> int \<Rightarrow> int \<Rightarrow> bool" where
  "isOccurrence z weekday h m t =
     (getDay z t = weekday \<and> getHours z t = h \<and> getMinutes z t = m \<and>
      getSeconds z t = 0 \<and> getMilliseconds z t = 0)"


definition reachedOnce :: "zone \<Rightarrow> int \<Rightarrow> bool" where
  "reachedOnce z x =
     (LocalTime z (UTC z x) = x \<and> (\<forall>t. UTC z x \<le> t \<longleftrightarrow> x \<le> LocalTime z t))"


section \<open>Example inputs\<close>

definition rateLimited :: response where
  "rateLimited = \<lparr>ok = False, status = 429, statusText = ''Too Many Requests''\<rparr>"

definition always429 :: "nat \<Rightarrow> fetched" where
  "always429 i = Resolved rateLimited"

definition failsOnceThenOk :: "nat \<Rightarrow> fetched" where
  "failsOnceThenOk i =
     (if i = 0 then Resolved \<lparr>ok = False, status = 500, statusText = ''Internal Server Error''\<rparr>
      else Resolved \<lparr>ok = True, status = 200, statusText = ''OK''\<rparr>)"

text \<open>Cards whose attribute is a word that \<open>parseEx\<close> reads as a time value, or cannot read.\<close>

definition parseEx :: "string \<Rightarrow> int option" where
  "parseEx s =
     (if s = ''late'' then Some 9000
      else if s = ''early'' then Some 5000
      else if s = ''just'' then Some 500
      else if s = ''old'' then Some (- 99999999)
      else None)"

definition mkCard :: "string \<Rightarrow> card" where
  "mkCard s = \<lparr>dataDate = Some s, hasCountdown = True, h3Text = Some s\<rparr>"



definition noCountdown :: "string \<Rightarrow> card" where
  "noCountdown s = \<lparr>dataDate = Some s, hasCountdown = False, h3Text = Some s\<rparr>"

definition noHeading :: "string \<Rightarrow> card" where
  "noHeading s = \<lparr>dataDate = Some s, hasCountdown = True, h3Text = None\<rparr>"

definition titled :: "string \<Rightarrow> string \<Rightarrow> card" where
  "titled ttl s = \<lparr>dataDate = Some s, hasCountdown = True, h3Text = Some ttl\<rparr>"

text \<open>
  A zone on universal time until Sunday 4 January 1970, 10:00, and one hour ahead from
  then on: its clock skips the local times from 10:00 to 11:00 of that day.
\<close>

definition skipZone :: zone where
  "skipZone =
     \<lparr>utcOffset = (\<lambda>t. if t < 295200000 then 0 else 3600000),
      localOffset = (\<lambda>t. if t < 298800000 then 0 else 3600000)\<rparr>"

section \<open>Evaluation lemmas\<close>

lemma showNat_small: "n < 10 \<Longrightarrow> showNat n = [digitChar n]"
  by (simp add: showNat.simps)

lemma showNat_large: "\<not> n < 10 \<Longrightarrow> showNat n = showNat (n div 10) @ [digitChar (n mod 10)]"
  by (subst showNat.simps) simp

section \<open>Reference validation\<close>

text \<open>
  C8. \<open>isValidReference\<close> accepts \<open>John 3:16\<close> and \<open>1 John 4:8\<close>, and rejects
  \<open>Johnn 3\<close> and the empty string.
\<close>

theorem isValidReference_examples:
  "isValidReference ''John 3:16'' \<and> isValidReference ''1 John 4:8'' \<and>
   \<not> isValidReference ''Johnn 3'' \<and> \<not> isValidReference ''''"
  by code_simp

section \<open>The retry loop\<close>

lemma fetchLoop_ok:
  "int i < m \<Longrightarrow> fetcher i = Resolved r \<Longrightarrow> ok r \<Longrightarrow>
   fetchLoop fetcher random m i = finish (Returned (Some r))"
  by (subst fetchLoop.simps) simp

lemma fetchLoop_retry:
  "int i < m - 1 \<Longrightarrow> fetcher i = Resolved r \<Longrightarrow> \<not> ok r \<Longrightarrow>
   fetchLoop fetcher random m i =
   sleepThen (backoff random i) (fetchLoop fetcher random m (Suc i))"
  by (subst fetchLoop.simps) simp

lemma fetchLoop_last:
  "int i = m - 1 \<Longrightarrow> fetcher i = Resolved r \<Longrightarrow> \<not> ok r \<Longrightarrow>
   fetchLoop fetcher random m i = finish (Thrown (ApiCallFailed (status r) (statusText r)))"
  by (subst fetchLoop.simps) simp

lemma fetchLoop_rejected_retry:
  "int i < m - 1 \<Longrightarrow> fetcher i = Rejected e \<Longrightarrow>
   fetchLoop fetcher random m i =
   sleepThen (backoff random i) (fetchLoop fetcher random m (Suc i))"
  by (subst fetchLoop.simps) simp

lemma fetchLoop_rejected_last:
  "int i = m - 1 \<Longrightarrow> fetcher i = Rejected e \<Longrightarrow>
   fetchLoop fetcher random m i = finish (Thrown e)"
  by (subst fetchLoop.simps) simp

lemma fetchLoop_exhausted:
  "\<not> int i < m \<Longrightarrow>
   fetchLoop fetcher random m i = \<lparr>outcome = Returned None, attempts = 0, delays = []\<rparr>"
  by (subst fetchLoop.simps) simp

lemma fetchLoop_sound:
  "int i < m \<Longrightarrow>
   (\<forall>v. outcome (fetchLoop fetcher random m i) = Returned v \<longrightarrow>
      (\<exists>r. v = Some r \<and> ok r \<and>
           fetcher (i + attempts (fetchLoop fetcher random m i) - 1) = Resolved r)) \<and>
   (\<forall>e. outcome (fetchLoop fetcher random m i) = Thrown e \<longrightarrow>
      int i + int (attempts (fetchLoop fetcher random m i)) = m) \<and>
   1 \<le> attempts (fetchLoop fetcher random m i) \<and>
   length (delays (fetchLoop fetcher random m i)) + 1 = attempts (fetchLoop fetcher random m i)"
proof (induction fetcher random m i rule: fetchLoop.induct)
  case (1 fetcher random m i)
  show ?case
  proof (cases "int i = m - 1")
    case True
    show ?thesis
    proof (cases "fetcher i")
      case (Resolved r)
      show ?thesis
      proof (cases "ok r")
        case True
        with 1 Resolved show ?thesis by (simp add: fetchLoop_ok finish_def)
      next
        case False
        with \<open>int i = m - 1\<close> Resolved show ?thesis by (simp add: fetchLoop_last finish_def)
      qed
    next
      case (Rejected e)
      with True show ?thesis by (simp add: fetchLoop_rejected_last finish_def)
    qed
  next
    case False
    with "1.prems" have lt: "int i < m - 1" by simp
    then have nxt: "int (Suc i) < m" by simp
    show ?thesis
    proof (cases "fetcher i")
      case (Resolved r)
      show ?thesis
      proof (cases "ok r")
        case True
        with 1 Resolved show ?thesis by (simp add: fetchLoop_ok finish_def)
      next
        case nok: False
        have step: "fetchLoop fetcher random m i =
            sleepThen (backoff random i) (fetchLoop fetcher random m (Suc i))"
          using lt Resolved nok by (rule fetchLoop_retry)
        have ih: "(\<forall>v. outcome (fetchLoop fetcher random m (Suc i)) = Returned v \<longrightarrow>
            (\<exists>r. v = Some r \<and> ok r \<and>
              fetcher (Suc i + attempts (fetchLoop fetcher random m (Suc i)) - 1) = Resolved r)) \<and>
          (\<forall>e. outcome (fetchLoop fetcher random m (Suc i)) = Thrown e \<longrightarrow>
              int (Suc i) + int (attempts (fetchLoop fetcher random m (Suc i))) = m) \<and>
          1 \<le> attempts (fetchLoop fetcher random m (Suc i)) \<and>
          length (delays (fetchLoop fetcher random m (Suc i))) + 1 =
            attempts (fetchLoop fetcher random m (Suc i))"
        proof (cases "status r = 429")
          case True
          with "1.IH"(1) [OF "1.prems" Resolved nok _ nxt] lt show ?thesis by simp
        next
          case False
          with "1.IH"(2) [OF "1.prems" Resolved nok _ _ nxt] lt show ?thesis by simp
        qed
        show ?thesis unfolding step using ih by (auto simp: sleepThen_def)
      qed
    next
      case (Rejected e)
      have step: "fetchLoop fetcher random m i =
          sleepThen (backoff random i) (fetchLoop fetcher random m (Suc i))"
        using lt Rejected by (rule fetchLoop_rejected_retry)
      from "1.IH"(3) [OF "1.prems" Rejected _ nxt] lt
      show ?thesis unfolding step by (auto simp: sleepThen_def)
    qed
  qed
qed

lemma backoff_mono:
  assumes "0 \<le> random i" "random i < 1" "0 \<le> random (Suc i)"
  shows "backoff random i \<le> backoff random (Suc i)"
proof -
  have p: "(1::real) \<le> 2 ^ i" by simp
  have a: "backoff random i = 2 ^ i * 1000 + random i * 1000"
    by (simp add: backoff_def)
  have b: "backoff random (Suc i) = 2 * 2 ^ i * 1000 + random (Suc i) * 1000"
    by (simp add: backoff_def)
  show ?thesis unfolding a b using p assms by linarith
qed

text \<open>
  C4. When every call of the operation reports the status 429, \<open>fetchWithRetry\<close> with
  \<open>maxRetries = 5\<close>, the default, calls it exactly 5 times, sleeps four delays that never
  decrease, and ends by throwing.
\<close>

theorem fetchWithRetry_rate_limited:
  assumes limited: "\<forall>i. \<exists>r. fetcher i = Resolved r \<and> \<not> ok r \<and> status r = 429"
    and jitter: "\<forall>i. 0 \<le> random i \<and> random i < 1"
  shows "MAX_RETRIES = 5 \<and>
         attempts (fetchWithRetry fetcher random 5) = 5 \<and>
         delays (fetchWithRetry fetcher random 5) = map (backoff random) [0, 1, 2, 3] \<and>
         sorted (delays (fetchWithRetry fetcher random 5)) \<and>
         (\<exists>txt. outcome (fetchWithRetry fetcher random 5) = Thrown (ApiCallFailed 429 txt))"
proof -
  have retry: "fetchLoop fetcher random 5 i =
      sleepThen (backoff random i) (fetchLoop fetcher random 5 (Suc i))" if "i < 4" for i
  proof -
    from limited obtain r where "fetcher i = Resolved r" "\<not> ok r" by blast
    with that show ?thesis by (simp add: fetchLoop_retry)
  qed
  from limited obtain r where r: "fetcher 4 = Resolved r" "\<not> ok r" "status r = 429" by blast
  then have last: "fetchLoop fetcher random 5 4 = finish (Thrown (ApiCallFailed 429 (statusText r)))"
    using fetchLoop_last [of 4 5 fetcher r random] by simp
  have r0: "fetchLoop fetcher random 5 0 =
      sleepThen (backoff random 0) (fetchLoop fetcher random 5 1)"
    using retry [of 0] by simp
  have r1: "fetchLoop fetcher random 5 1 =
      sleepThen (backoff random 1) (fetchLoop fetcher random 5 2)"
    using retry [of 1] by (simp add: numeral_2_eq_2)
  have r2: "fetchLoop fetcher random 5 2 =
      sleepThen (backoff random 2) (fetchLoop fetcher random 5 3)"
    using retry [of 2] by (simp add: eval_nat_numeral)
  have r3: "fetchLoop fetcher random 5 3 =
      sleepThen (backoff random 3) (fetchLoop fetcher random 5 4)"
    using retry [of 3] by (simp add: eval_nat_numeral)
  have run: "fetchWithRetry fetcher random 5 =
      \<lparr>outcome = Thrown (ApiCallFailed 429 (statusText r)), attempts = 5,
       delays = map (backoff random) [0, 1, 2, 3]\<rparr>"
    unfolding fetchWithRetry_def r0 r1 r2 r3 last
    by (simp add: sleepThen_def finish_def)
  have le: "backoff random i \<le> backoff random (Suc i)" for i
    using jitter by (simp add: backoff_mono)
  have le2: "backoff random i \<le> backoff random (Suc (Suc i))" for i
    using le [of i] le [of "Suc i"] by simp
  have le3: "backoff random i \<le> backoff random (Suc (Suc (Suc i)))" for i
    using le2 [of i] le [of "Suc (Suc i)"] by simp
  have srt: "sorted (map (backoff random) [0, 1, 2, 3])"
    using le [of 0] le [of 1] le [of 2] le2 [of 0] le2 [of 1] le3 [of 0]
    by (simp add: eval_nat_numeral)
  show ?thesis using srt by (simp add: run MAX_RETRIES_def)
qed

theorem fetchWithRetry_rate_limited_witness:
  "(\<forall>i. \<exists>r. always429 i = Resolved r \<and> \<not> ok r \<and> status r = 429) \<and>
   (\<forall>i. (0::real) \<le> (\<lambda>_. 1 / 2) i \<and> (\<lambda>_. 1 / 2) i < (1::real)) \<and>
   attempts (fetchWithRetry always429 (\<lambda>_. 1 / 2) 5) = 5 \<and>
   delays (fetchWithRetry always429 (\<lambda>_. 1 / 2) 5) = [1500, 2500, 4500, 8500] \<and>
   sorted (delays (fetchWithRetry always429 (\<lambda>_. 1 / 2) 5))"
proof -
  have a: "\<forall>i. \<exists>r. always429 i = Resolved r \<and> \<not> ok r \<and> status r = 429"
    by (simp add: always429_def rateLimited_def)
  have b: "\<forall>i. (0::real) \<le> (\<lambda>_. 1 / 2) i \<and> (\<lambda>_. 1 / 2) i < (1::real)" by simp
  from fetchWithRetry_rate_limited [OF a b] a b show ?thesis
    by (simp add: backoff_def MAX_RETRIES_def)
qed

text \<open>
  C9. With \<open>maxRetries\<close> at least 1, a run of \<open>fetchWithRetry\<close> that returns gives a response
  whose \<open>ok\<close> is true; a run that throws has made all \<open>maxRetries\<close> calls; and a response
  that is not \<open>ok\<close> in an iteration before the last one is followed by a sleep and the
  next iteration, which calls the operation again.
\<close>

theorem fetchWithRetry_returns_only_ok:
  assumes "1 \<le> maxRetries"
  shows "(\<forall>v. outcome (fetchWithRetry fetcher random maxRetries) = Returned v \<longrightarrow>
            (\<exists>r. v = Some r \<and> ok r)) \<and>
         (\<forall>e. outcome (fetchWithRetry fetcher random maxRetries) = Thrown e \<longrightarrow>
            int (attempts (fetchWithRetry fetcher random maxRetries)) = maxRetries) \<and>
         (\<forall>i r. int i < maxRetries - 1 \<and> fetcher i = Resolved r \<and> \<not> ok r \<longrightarrow>
            fetchLoop fetcher random maxRetries i =
              sleepThen (backoff random i) (fetchLoop fetcher random maxRetries (Suc i)) \<and>
            1 \<le> attempts (fetchLoop fetcher random maxRetries (Suc i)))"
proof -
  from assms have "int 0 < maxRetries" by simp
  from fetchLoop_sound [OF this, of fetcher random]
  have a: "(\<forall>v. outcome (fetchWithRetry fetcher random maxRetries) = Returned v \<longrightarrow>
            (\<exists>r. v = Some r \<and> ok r)) \<and>
         (\<forall>e. outcome (fetchWithRetry fetcher random maxRetries) = Thrown e \<longrightarrow>
            int (attempts (fetchWithRetry fetcher random maxRetries)) = maxRetries)"
    unfolding fetchWithRetry_def by auto
  have b: "fetchLoop fetcher random maxRetries i =
              sleepThen (backoff random i) (fetchLoop fetcher random maxRetries (Suc i)) \<and>
            1 \<le> attempts (fetchLoop fetcher random maxRetries (Suc i))"
    if "int i < maxRetries - 1" "fetcher i = Resolved r" "\<not> ok r" for i r
  proof -
    from that(1) have "int (Suc i) < maxRetries" by simp
    from fetchLoop_sound [OF this, of fetcher random]
      fetchLoop_retry [of i maxRetries fetcher r random] that
    show ?thesis by simp
  qed
  from a b show ?thesis by blast
qed

theorem fetchWithRetry_returns_only_ok_witness:
  "(1::int) \<le> 3 \<and>
   outcome (fetchWithRetry failsOnceThenOk (\<lambda>_. 0) 3) =
     Returned (Some \<lparr>ok = True, status = 200, statusText = ''OK''\<rparr>) \<and>
   ok \<lparr>ok = True, status = 200, statusText = ''OK''\<rparr> \<and>
   int 0 < 3 - 1 \<and>
   fetchLoop failsOnceThenOk (\<lambda>_. 0) 3 0 =
     sleepThen (backoff (\<lambda>_. 0) 0) (fetchLoop failsOnceThenOk (\<lambda>_. 0) 3 (Suc 0)) \<and>
   outcome (fetchWithRetry always429 (\<lambda>_. 0) 1) = Thrown (ApiCallFailed 429 ''Too Many Requests'') \<and>
   int (attempts (fetchWithRetry always429 (\<lambda>_. 0) 1)) = 1"
proof -
  have h: "(1::int) \<le> 3" by simp
  have h1: "(1::int) \<le> 1" by simp
  have e0: "failsOnceThenOk 0 = Resolved \<lparr>ok = False, status = 500, statusText = ''Internal Server Error''\<rparr>"
    by (simp add: failsOnceThenOk_def)
  have e1: "failsOnceThenOk (Suc 0) = Resolved \<lparr>ok = True, status = 200, statusText = ''OK''\<rparr>"
    by (simp add: failsOnceThenOk_def)
  have s0: "fetchLoop failsOnceThenOk (\<lambda>_. 0) 3 0 =
     sleepThen (backoff (\<lambda>_. 0) 0) (fetchLoop failsOnceThenOk (\<lambda>_. 0) 3 (Suc 0))"
    using fetchLoop_retry [of 0 3 failsOnceThenOk _ "\<lambda>_. 0"] e0 by simp
  have s1: "fetchLoop failsOnceThenOk (\<lambda>_. 0) 3 (Suc 0) =
     finish (Returned (Some \<lparr>ok = True, status = 200, statusText = ''OK''\<rparr>))"
    using fetchLoop_ok [of "Suc 0" 3 failsOnceThenOk _ "\<lambda>_. 0"] e1 by simp
  have run: "outcome (fetchWithRetry failsOnceThenOk (\<lambda>_. 0) 3) =
     Returned (Some \<lparr>ok = True, status = 200, statusText = ''OK''\<rparr>)"
    by (simp add: fetchWithRetry_def s0 s1 sleepThen_def finish_def)
  have t: "fetchWithRetry always429 (\<lambda>_. 0) 1 =
     finish (Thrown (ApiCallFailed 429 ''Too Many Requests''))"
    unfolding fetchWithRetry_def
    using fetchLoop_last [of 0 1 always429 rateLimited "\<lambda>_. 0"]
    by (simp add: always429_def rateLimited_def)
  from fetchWithRetry_returns_only_ok [OF h, of failsOnceThenOk "\<lambda>_. 0"]
       fetchWithRetry_returns_only_ok [OF h1, of always429 "\<lambda>_. 0"] run s0 t
  show ?thesis by (simp add: finish_def)
qed

lemma fetchLoop_delay:
  assumes "int i < maxRetries - 1" "fetcher i = Resolved r" "\<not> ok r"
  shows "delays (fetchLoop fetcher random maxRetries i) =
         (1000 * 2 ^ i + random i * 1000) # delays (fetchLoop fetcher random maxRetries (Suc i))"
  using fetchLoop_retry [of i maxRetries fetcher r random] assms
  by (simp add: sleepThen_def backoff_def)

text \<open>
  C5, as the code has it. When iteration \<open>i\<close> sees the status 429 and attempts remain,
  the delay slept before the next iteration is \<open>1000 * 2 ^ i\<close> plus a jitter in
  \<open>[0, 1000)\<close>: the exponential term is not capped.
\<close>

theorem fetchWithRetry_backoff_uncapped:
  assumes "int i < maxRetries - 1" "fetcher i = Resolved r" "\<not> ok r" "status r = 429"
    and "0 \<le> random i" "random i < 1"
  shows "\<exists>jitter. 0 \<le> jitter \<and> jitter < 1000 \<and>
           delays (fetchLoop fetcher random maxRetries i) =
             (1000 * 2 ^ i + jitter) # delays (fetchLoop fetcher random maxRetries (Suc i))"
proof -
  from assms(5,6) have "0 \<le> random i * 1000 \<and> random i * 1000 < 1000" by simp
  with fetchLoop_delay [of i maxRetries fetcher r random] assms(1-3) show ?thesis by blast
qed

theorem fetchWithRetry_backoff_uncapped_witness:
  "int 0 < 5 - 1 \<and> always429 0 = Resolved rateLimited \<and> \<not> ok rateLimited \<and>
   status rateLimited = 429 \<and> (0::real) \<le> 1 / 2 \<and> (1::real) / 2 < 1 \<and>
   (\<exists>jitter. 0 \<le> jitter \<and> jitter < 1000 \<and>
      delays (fetchLoop always429 (\<lambda>_. 1 / 2) 5 0) =
        (1000 * 2 ^ 0 + jitter) # delays (fetchLoop always429 (\<lambda>_. 1 / 2) 5 (Suc 0)))"
  using fetchWithRetry_backoff_uncapped [of 0 5 always429 rateLimited "\<lambda>_. 1 / 2"]
  by (simp add: always429_def rateLimited_def)

text \<open>
  C5 as stated fails: no cap bounds the exponential term. With an operation that always
  reports 429, jitter 0 and \<open>k + 2\<close> attempts allowed, the delay slept in iteration \<open>k\<close>
  is \<open>1000 * 2 ^ k\<close>, which is \<open>min cap (1000 * 2 ^ k)\<close> for every \<open>k\<close> under no \<open>cap\<close>.
\<close>

theorem fetchWithRetry_backoff_cap_counterexample:
  "\<not> (\<exists>cap. \<forall>k. hd (delays (fetchLoop always429 (\<lambda>_. 0) (int k + 2) k)) =
            min cap (1000 * 2 ^ k) + 0)"
proof
  assume "\<exists>cap. \<forall>k. hd (delays (fetchLoop always429 (\<lambda>_. 0) (int k + 2) k)) =
            min cap (1000 * 2 ^ k) + 0"
  then obtain cap where cap:
    "\<And>k. hd (delays (fetchLoop always429 (\<lambda>_. 0) (int k + 2) k)) = min cap (1000 * 2 ^ k) + 0"
    by blast
  obtain k where k: "cap < (2::real) ^ k" using real_arch_pow [of 2 cap] by auto
  have "(2::real) ^ k \<le> 1000 * 2 ^ k" by simp
  with k have c: "cap < 1000 * 2 ^ k" by linarith
  have "delays (fetchLoop always429 (\<lambda>_. 0) (int k + 2) k) =
       (1000 * 2 ^ k + (\<lambda>_. 0) k * 1000) # delays (fetchLoop always429 (\<lambda>_. 0) (int k + 2) (Suc k))"
    using fetchLoop_delay [of k "int k + 2" always429 rateLimited "\<lambda>_. 0"]
    by (simp add: always429_def rateLimited_def)
  then have "hd (delays (fetchLoop always429 (\<lambda>_. 0) (int k + 2) k)) = 1000 * 2 ^ k" by simp
  with cap [of k] c show False by simp
qed

section \<open>Rendering a remaining time\<close>

lemma seconds_split:
  "(T::nat) div 86400 * 86400 + (T mod 86400) div 3600 * 3600 + (T mod 3600) div 60 * 60 +
     T mod 60 = T"
proof -
  have a: "T mod 3600 = (T mod 86400) mod 3600" by (simp add: mod_mod_cancel)
  have b: "T mod 60 = (T mod 3600) mod 60" by (simp add: mod_mod_cancel)
  have "(T mod 3600) div 60 * 60 + T mod 60 = T mod 3600" unfolding b by simp
  moreover have "(T mod 86400) div 3600 * 3600 + T mod 3600 = T mod 86400" unfolding a by simp
  moreover have "T div 86400 * 86400 + T mod 86400 = T" by simp
  ultimately show ?thesis by linarith
qed

text \<open>
  C10. For an integer number of milliseconds \<open>ms\<close>, \<open>formatRemaining\<close> gives
  \<open>{days}d {hours}h {minutes}m {seconds}s\<close> with hours below 24, minutes and seconds
  below 60, and \<open>days * 86400 + hours * 3600 + minutes * 60 + seconds\<close> equal to
  \<open>max 0 (floor (ms / 1000))\<close>; a negative \<open>ms\<close> gives \<open>0d 0h 0m 0s\<close>.
\<close>

theorem formatRemaining_components:
  "(\<exists>d h m s. formatRemaining (Some ms) =
       showNat d @ ''d '' @ showNat h @ ''h '' @ showNat m @ ''m '' @ showNat s @ ''s'' \<and>
     h < 24 \<and> m < 60 \<and> s < 60 \<and>
     int (d * 86400 + h * 3600 + m * 60 + s) = max 0 (ms div 1000)) \<and>
   (ms < 0 \<longrightarrow> formatRemaining (Some ms) = ''0d 0h 0m 0s'')"
proof -
  define T where "T = nat (max 0 (ms div 1000))"
  have f: "formatRemaining (Some ms) =
       showNat (T div 86400) @ ''d '' @ showNat ((T mod 86400) div 3600) @ ''h '' @
       showNat ((T mod 3600) div 60) @ ''m '' @ showNat (T mod 60) @ ''s''"
    by (simp add: formatRemaining_def T_def Let_def)
  have h: "(T mod 86400) div 3600 < 24" by (simp add: less_mult_imp_div_less)
  have m: "(T mod 3600) div 60 < 60" by (simp add: less_mult_imp_div_less)
  have s: "T mod 60 < 60" by simp
  have sum: "int (T div 86400 * 86400 + (T mod 86400) div 3600 * 3600 +
      (T mod 3600) div 60 * 60 + T mod 60) = max 0 (ms div 1000)"
    unfolding seconds_split by (simp add: T_def)
  have neg: "formatRemaining (Some ms) = ''0d 0h 0m 0s''" if "ms < 0"
  proof -
    from that have "ms div 1000 < 0" by simp
    then have "T = 0" by (simp add: T_def)
    then show ?thesis unfolding f by (simp add: showNat_small digitChar_def)
  qed
  from f h m s sum neg show ?thesis by blast
qed

theorem formatRemaining_components_witness:
  "(-1::int) < 0 \<and> formatRemaining (Some (-1)) = ''0d 0h 0m 0s'' \<and>
   formatRemaining (Some 93784999) = ''1d 2h 3m 4s''"
proof -
  have "formatRemaining (Some 93784999) = ''1d 2h 3m 4s''"
    by (simp add: formatRemaining_def showNat_small digitChar_def)
  with formatRemaining_components [of "-1"] show ?thesis by simp
qed

section \<open>The selection of script.js\<close>

lemma sort_key_first:
  fixes f :: "'a \<Rightarrow> int"
  shows "xs \<noteq> [] \<Longrightarrow>
    \<exists>i<length xs. sort_key f xs ! 0 = xs ! i \<and> (\<forall>j<length xs. f (xs ! i) \<le> f (xs ! j)) \<and>
      (\<forall>j<i. f (xs ! i) < f (xs ! j))"
proof (induction xs)
  case Nil
  then show ?case by simp
next
  case (Cons x xs)
  show ?case
  proof (cases "xs = []")
    case True
    then show ?thesis by simp
  next
    case False
    from Cons.IH [OF False] obtain i where i: "i < length xs" "sort_key f xs ! 0 = xs ! i"
      "\<forall>j<length xs. f (xs ! i) \<le> f (xs ! j)" "\<forall>j<i. f (xs ! i) < f (xs ! j)" by blast
    from False have "sort_key f xs \<noteq> []" by (metis length_sort length_0_conv)
    then obtain y ys where ys: "sort_key f xs = y # ys" by (cases "sort_key f xs") auto
    with i(2) have y: "y = xs ! i" by simp
    show ?thesis
    proof (cases "f x \<le> f y")
      case True
      then have "sort_key f (x # xs) ! 0 = (x # xs) ! 0" by (simp add: ys)
      moreover have "\<forall>j<length (x # xs). f ((x # xs) ! 0) \<le> f ((x # xs) ! j)"
      proof (intro allI impI)
        fix j assume "j < length (x # xs)"
        then show "f ((x # xs) ! 0) \<le> f ((x # xs) ! j)"
          using True i(3) y by (cases j) (auto intro: order_trans)
      qed
      ultimately show ?thesis by (intro exI [of _ 0]) simp
    next
      case False
      then have "sort_key f (x # xs) ! 0 = (x # xs) ! Suc i" by (simp add: ys y)
      moreover have "\<forall>j<length (x # xs). f ((x # xs) ! Suc i) \<le> f ((x # xs) ! j)"
      proof (intro allI impI)
        fix j assume "j < length (x # xs)"
        then show "f ((x # xs) ! Suc i) \<le> f ((x # xs) ! j)"
          using False i(3) y by (cases j) auto
      qed
      moreover have "\<forall>j<Suc i. f ((x # xs) ! Suc i) < f ((x # xs) ! j)"
      proof (intro allI impI)
        fix j assume "j < Suc i"
        then show "f ((x # xs) ! Suc i) < f ((x # xs) ! j)"
          using False i(4) y by (cases j) auto
      qed
      ultimately show ?thesis using i(1) by (intro exI [of _ "Suc i"]) simp
    qed
  qed
qed

lemma cardCallback_view: "fst (cardCallback parseDate now (i, c)) = cardView parseDate now c"
  by (simp add: cardView_def cardCallback_def Let_def split: option.splits)

lemma cardCallback_entry:
  "snd (cardCallback parseDate now (i, c)) =
     (case cardView parseDate now c of
        StartsIn d \<Rightarrow> Some \<lparr>cardIx = i, eventDate = d + now, diff = d\<rparr>
      | _ \<Rightarrow> None)"
  by (simp add: cardView_def cardCallback_def Let_def split: option.splits)

lemma cardView_StartsIn:
  "cardView parseDate now c = StartsIn d \<longleftrightarrow>
     hasCountdown c \<and> 0 < d \<and>
     (\<exists>dateStr. dataDate c = Some dateStr \<and> dateStr \<noteq> [] \<and> parseDate dateStr = Some (d + now))"
  by (auto simp: cardView_def cardCallback_def Let_def split: option.splits)

lemma in_set_map_filter:
  "y \<in> set (List.map_filter f xs) \<longleftrightarrow> (\<exists>x\<in>set xs. f x = Some y)"
  by (induction xs) (auto split: option.splits)

lemma cardCallback_Some:
  "snd (cardCallback parseDate now (k, c)) = Some e \<longleftrightarrow>
     (\<exists>d. cardView parseDate now c = StartsIn d \<and>
          e = \<lparr>cardIx = k, eventDate = d + now, diff = d\<rparr>)"
  by (cases "cardView parseDate now c") (auto simp: cardCallback_entry)

lemma upcoming_set:
  "e \<in> set (upcoming parseDate now cards) \<longleftrightarrow>
     (\<exists>k<length cards. \<exists>d. cardView parseDate now (cards ! k) = StartsIn d \<and>
        e = \<lparr>cardIx = k, eventDate = d + now, diff = d\<rparr>)"
proof -
  have "e \<in> set (upcoming parseDate now cards) \<longleftrightarrow>
      (\<exists>k<length cards. snd (cardCallback parseDate now (k, cards ! k)) = Some e)"
    by (auto simp: upcoming_def in_set_map_filter in_set_enumerate_eq)
  also have "\<dots> \<longleftrightarrow> (\<exists>k<length cards. \<exists>d. cardView parseDate now (cards ! k) = StartsIn d \<and>
        e = \<lparr>cardIx = k, eventDate = d + now, diff = d\<rparr>)"
    by (simp only: cardCallback_Some)
  finally show ?thesis .
qed

lemma upcoming_order: "sorted_wrt (<) (map cardIx (upcoming parseDate now cards))"
proof -
  let ?g = "\<lambda>ic. snd (cardCallback parseDate now ic)"
  have "map cardIx (List.map_filter ?g xs) = map fst (filter (\<lambda>ic. ?g ic \<noteq> None) xs)" for xs
    by (induction xs) (auto simp: cardCallback_entry split: view.splits option.splits)
  then have "map cardIx (upcoming parseDate now cards) =
      map fst (filter (\<lambda>ic. ?g ic \<noteq> None) (enumerate 0 cards))"
    by (simp add: upcoming_def)
  moreover have "sorted_wrt (<) (map fst (filter (\<lambda>ic. ?g ic \<noteq> None) (enumerate 0 cards)))"
    unfolding sorted_wrt_map by (rule sorted_wrt_filter) (simp add: sorted_wrt_map [symmetric])
  ultimately show ?thesis by simp
qed

lemma selectNext_first_minimal:
  assumes "k0 < length cards" "cardView parseDate now (cards ! k0) = StartsIn d0"
  shows "\<exists>k<length cards. \<exists>d.
           selectNext (upcoming parseDate now cards) =
             Some \<lparr>cardIx = k, eventDate = d + now, diff = d\<rparr> \<and>
           cardView parseDate now (cards ! k) = StartsIn d \<and> 0 < d \<and>
           (\<forall>j<length cards. \<forall>d'. cardView parseDate now (cards ! j) = StartsIn d' \<longrightarrow>
              d \<le> d' \<and> (j < k \<longrightarrow> d < d'))"
proof -
  let ?ups = "upcoming parseDate now cards"
  from assms have "\<lparr>cardIx = k0, eventDate = d0 + now, diff = d0\<rparr> \<in> set ?ups"
    unfolding upcoming_set by blast
  then have ne: "?ups \<noteq> []" by auto
  from sort_key_first [OF ne, of eventDate] obtain i where i: "i < length ?ups"
    "sort_key eventDate ?ups ! 0 = ?ups ! i"
    "\<forall>j<length ?ups. eventDate (?ups ! i) \<le> eventDate (?ups ! j)"
    "\<forall>j<i. eventDate (?ups ! i) < eventDate (?ups ! j)" by blast
  from i(1) have "?ups ! i \<in> set ?ups" by simp
  then obtain k d where k: "k < length cards" "cardView parseDate now (cards ! k) = StartsIn d"
    "?ups ! i = \<lparr>cardIx = k, eventDate = d + now, diff = d\<rparr>"
    unfolding upcoming_set by blast
  have sel: "selectNext ?ups = Some \<lparr>cardIx = k, eventDate = d + now, diff = d\<rparr>"
    using ne i(2) k(3) by (simp add: selectNext_def)
  from k(2) have pos: "0 < d" by (simp add: cardView_StartsIn)
  have min: "d \<le> d' \<and> (j < k \<longrightarrow> d < d')"
    if j: "j < length cards" "cardView parseDate now (cards ! j) = StartsIn d'" for j d'
  proof -
    from j have "\<lparr>cardIx = j, eventDate = d' + now, diff = d'\<rparr> \<in> set ?ups"
      unfolding upcoming_set by blast
    then obtain jj where jj: "jj < length ?ups"
      "?ups ! jj = \<lparr>cardIx = j, eventDate = d' + now, diff = d'\<rparr>"
      by (auto simp: in_set_conv_nth)
    from i(3) jj k(3) have le: "d \<le> d'" by auto
    have "d < d'" if "j < k"
    proof -
      have "jj < i"
      proof (rule ccontr)
        assume "\<not> jj < i"
        then have "i \<le> jj" by simp
        have "cardIx (?ups ! i) \<le> cardIx (?ups ! jj)"
        proof (cases "i = jj")
          case True
          then show ?thesis by simp
        next
          case False
          with \<open>i \<le> jj\<close> have "i < jj" by simp
          with upcoming_order [of parseDate now cards] jj(1)
          have "map cardIx ?ups ! i < map cardIx ?ups ! jj"
            by (simp add: sorted_wrt_iff_nth_less del: nth_map)
          with jj(1) i(1) show ?thesis by simp
        qed
        with jj(2) k(3) that show False by simp
      qed
      with i(4) jj(2) k(3) show ?thesis by auto
    qed
    with le show ?thesis by simp
  qed
  from k(1,2) sel pos min show ?thesis by blast
qed

lemma upcoming_empty:
  assumes "\<forall>c\<in>set cards. \<forall>d. cardView parseDate now c \<noteq> StartsIn d"
  shows "upcoming parseDate now cards = []"
proof (rule ccontr)
  assume "upcoming parseDate now cards \<noteq> []"
  then obtain e where "e \<in> set (upcoming parseDate now cards)"
    by (cases "upcoming parseDate now cards") auto
  then show False using assms unfolding upcoming_set by auto
qed

lemma upcoming_indices:
  "cardIx ` set (upcoming parseDate now cards) =
     {k. k < length cards \<and> (\<exists>d. cardView parseDate now (cards ! k) = StartsIn d)}"
proof (rule set_eqI)
  fix k
  show "k \<in> cardIx ` set (upcoming parseDate now cards) \<longleftrightarrow>
        k \<in> {k. k < length cards \<and> (\<exists>d. cardView parseDate now (cards ! k) = StartsIn d)}"
    by (force simp: image_iff upcoming_set)
qed

section \<open>The selection of part_000\<close>

lemma forEachCard_append:
  "forEachCard p f now (xs @ ys) st =
     (case forEachCard p f now xs st of
        Inl e \<Rightarrow> Inl e
      | Inr (shs, st') \<Rightarrow>
          (case forEachCard p f now ys st' of
             Inl e \<Rightarrow> Inl e
           | Inr (shs', st'') \<Rightarrow> Inr (shs @ shs', st'')))"
  by (induction xs arbitrary: st) (auto split: sum.splits)

lemma cardStep_tracker:
  assumes "hasCountdown c" "h3Text c = Some ttl"
  shows "\<exists>sh. cardStep p f now c st =
     Inr (sh, (case eventTime p c of
                 None \<Rightarrow> st
               | Some t \<Rightarrow>
                   if now < t \<and> (case nextEventTimeDiff st of None \<Rightarrow> True | Some d \<Rightarrow> t - now < d)
                   then \<lparr>nextEvent = Some \<lparr>title = ttl, date = f t, days = ceilDays (t - now)\<rparr>,
                         nextEventTimeDiff = Some (t - now)\<rparr>
                   else st))"
  using assms by (auto simp: cardStep_def Let_def split: option.splits)

lemma forEachCard_tracks:
  assumes wf: "\<forall>c\<in>set cards. hasCountdown c \<and> h3Text c \<noteq> None"
  shows "\<exists>shs st. forEachCard p f now cards \<lparr>nextEvent = None, nextEventTimeDiff = None\<rparr> = Inr (shs, st) \<and>
      length shs = length cards \<and>
      ((\<forall>j<length cards. \<forall>t. eventTime p (cards ! j) = Some t \<longrightarrow> \<not> now < t) \<and>
         st = \<lparr>nextEvent = None, nextEventTimeDiff = None\<rparr> \<or>
       (\<exists>k<length cards. \<exists>t ttl. eventTime p (cards ! k) = Some t \<and> now < t \<and>
          h3Text (cards ! k) = Some ttl \<and>
          st = \<lparr>nextEvent = Some \<lparr>title = ttl, date = f t, days = ceilDays (t - now)\<rparr>,
                nextEventTimeDiff = Some (t - now)\<rparr> \<and>
          (\<forall>j<length cards. \<forall>t'. eventTime p (cards ! j) = Some t' \<and> now < t' \<longrightarrow>
             t \<le> t' \<and> (j < k \<longrightarrow> t < t'))))"
  using wf
proof (induction cards rule: rev_induct)
  case Nil
  then show ?case by simp
next
  case (snoc x xs)
  let ?init = "\<lparr>nextEvent = None, nextEventTimeDiff = None\<rparr>"
  from snoc.prems have wfx: "hasCountdown x" and "h3Text x \<noteq> None" and wfxs:
    "\<forall>c\<in>set xs. hasCountdown c \<and> h3Text c \<noteq> None" by auto
  then obtain ttl where ttl: "h3Text x = Some ttl" by auto
  from snoc.IH [OF wfxs] obtain shs st where run: "forEachCard p f now xs ?init = Inr (shs, st)"
    and len: "length shs = length xs"
    and inv: "(\<forall>j<length xs. \<forall>t. eventTime p (xs ! j) = Some t \<longrightarrow> \<not> now < t) \<and> st = ?init \<or>
       (\<exists>k<length xs. \<exists>t ttl. eventTime p (xs ! k) = Some t \<and> now < t \<and>
          h3Text (xs ! k) = Some ttl \<and>
          st = \<lparr>nextEvent = Some \<lparr>title = ttl, date = f t, days = ceilDays (t - now)\<rparr>,
                nextEventTimeDiff = Some (t - now)\<rparr> \<and>
          (\<forall>j<length xs. \<forall>t'. eventTime p (xs ! j) = Some t' \<and> now < t' \<longrightarrow>
             t \<le> t' \<and> (j < k \<longrightarrow> t < t')))" by blast
  define st' where "st' = (case eventTime p x of
                 None \<Rightarrow> st
               | Some t \<Rightarrow>
                   if now < t \<and> (case nextEventTimeDiff st of None \<Rightarrow> True | Some d \<Rightarrow> t - now < d)
                   then \<lparr>nextEvent = Some \<lparr>title = ttl, date = f t, days = ceilDays (t - now)\<rparr>,
                         nextEventTimeDiff = Some (t - now)\<rparr>
                   else st)"
  from cardStep_tracker [OF wfx ttl, of p f now st] obtain sh where
    step: "cardStep p f now x st = Inr (sh, st')" unfolding st'_def by blast
  have run': "forEachCard p f now (xs @ [x]) ?init = Inr (shs @ [sh], st')"
    by (simp add: forEachCard_append run step)
  have nth_old: "(xs @ [x]) ! j = xs ! j" if "j < length xs" for j
    using that by (simp add: nth_append)
  have nth_new: "(xs @ [x]) ! length xs = x" by simp
  have cases_j: "j < length xs \<or> j = length xs" if "j < length (xs @ [x])" for j
    using that by auto
  have inv': "(\<forall>j<length (xs @ [x]). \<forall>t. eventTime p ((xs @ [x]) ! j) = Some t \<longrightarrow> \<not> now < t) \<and>
         st' = ?init \<or>
       (\<exists>k<length (xs @ [x]). \<exists>t ttl. eventTime p ((xs @ [x]) ! k) = Some t \<and> now < t \<and>
          h3Text ((xs @ [x]) ! k) = Some ttl \<and>
          st' = \<lparr>nextEvent = Some \<lparr>title = ttl, date = f t, days = ceilDays (t - now)\<rparr>,
                nextEventTimeDiff = Some (t - now)\<rparr> \<and>
          (\<forall>j<length (xs @ [x]). \<forall>t'. eventTime p ((xs @ [x]) ! j) = Some t' \<and> now < t' \<longrightarrow>
             t \<le> t' \<and> (j < k \<longrightarrow> t < t')))"
  proof (cases "\<exists>tx. eventTime p x = Some tx \<and> now < tx")
    case False
    then have same: "st' = st" by (auto simp: st'_def split: option.splits)
    from inv show ?thesis
    proof
      assume a: "(\<forall>j<length xs. \<forall>t. eventTime p (xs ! j) = Some t \<longrightarrow> \<not> now < t) \<and> st = ?init"
      have "\<forall>j<length (xs @ [x]). \<forall>t. eventTime p ((xs @ [x]) ! j) = Some t \<longrightarrow> \<not> now < t"
      proof (intro allI impI)
        fix j t assume "j < length (xs @ [x])" "eventTime p ((xs @ [x]) ! j) = Some t"
        with cases_j [of j] a False show "\<not> now < t" by (auto simp: nth_append)
      qed
      with a same show ?thesis by blast
    next
      assume "\<exists>k<length xs. \<exists>t ttl. eventTime p (xs ! k) = Some t \<and> now < t \<and>
          h3Text (xs ! k) = Some ttl \<and>
          st = \<lparr>nextEvent = Some \<lparr>title = ttl, date = f t, days = ceilDays (t - now)\<rparr>,
                nextEventTimeDiff = Some (t - now)\<rparr> \<and>
          (\<forall>j<length xs. \<forall>t'. eventTime p (xs ! j) = Some t' \<and> now < t' \<longrightarrow>
             t \<le> t' \<and> (j < k \<longrightarrow> t < t'))"
      then obtain k t tl where k: "k < length xs" "eventTime p (xs ! k) = Some t" "now < t"
        "h3Text (xs ! k) = Some tl"
        "st = \<lparr>nextEvent = Some \<lparr>title = tl, date = f t, days = ceilDays (t - now)\<rparr>,
                nextEventTimeDiff = Some (t - now)\<rparr>"
        "\<forall>j<length xs. \<forall>t'. eventTime p (xs ! j) = Some t' \<and> now < t' \<longrightarrow>
             t \<le> t' \<and> (j < k \<longrightarrow> t < t')" by blast
      have "\<forall>j<length (xs @ [x]). \<forall>t'. eventTime p ((xs @ [x]) ! j) = Some t' \<and> now < t' \<longrightarrow>
             t \<le> t' \<and> (j < k \<longrightarrow> t < t')"
      proof (intro allI impI)
        fix j t' assume "j < length (xs @ [x])" "eventTime p ((xs @ [x]) ! j) = Some t' \<and> now < t'"
        with cases_j [of j] k(6) False show "t \<le> t' \<and> (j < k \<longrightarrow> t < t')"
          by (auto simp: nth_append)
      qed
      with k same have "k < length (xs @ [x]) \<and> eventTime p ((xs @ [x]) ! k) = Some t \<and> now < t \<and>
          h3Text ((xs @ [x]) ! k) = Some tl \<and>
          st' = \<lparr>nextEvent = Some \<lparr>title = tl, date = f t, days = ceilDays (t - now)\<rparr>,
                nextEventTimeDiff = Some (t - now)\<rparr> \<and>
          (\<forall>j<length (xs @ [x]). \<forall>t'. eventTime p ((xs @ [x]) ! j) = Some t' \<and> now < t' \<longrightarrow>
             t \<le> t' \<and> (j < k \<longrightarrow> t < t'))"
        by (simp add: nth_append)
      then show ?thesis by blast
    qed
  next
    case True
    then obtain tx where tx: "eventTime p x = Some tx" "now < tx" by blast
    from inv show ?thesis
    proof
      assume a: "(\<forall>j<length xs. \<forall>t. eventTime p (xs ! j) = Some t \<longrightarrow> \<not> now < t) \<and> st = ?init"
      with tx have new: "st' = \<lparr>nextEvent = Some \<lparr>title = ttl, date = f tx, days = ceilDays (tx - now)\<rparr>,
                nextEventTimeDiff = Some (tx - now)\<rparr>" by (simp add: st'_def)
      have "\<forall>j<length (xs @ [x]). \<forall>t'. eventTime p ((xs @ [x]) ! j) = Some t' \<and> now < t' \<longrightarrow>
             tx \<le> t' \<and> (j < length xs \<longrightarrow> tx < t')"
      proof (intro allI impI)
        fix j t' assume "j < length (xs @ [x])" "eventTime p ((xs @ [x]) ! j) = Some t' \<and> now < t'"
        with cases_j [of j] a tx show "tx \<le> t' \<and> (j < length xs \<longrightarrow> tx < t')"
          by (auto simp: nth_append)
      qed
      with new tx ttl have "length xs < length (xs @ [x]) \<and>
          eventTime p ((xs @ [x]) ! length xs) = Some tx \<and> now < tx \<and>
          h3Text ((xs @ [x]) ! length xs) = Some ttl \<and>
          st' = \<lparr>nextEvent = Some \<lparr>title = ttl, date = f tx, days = ceilDays (tx - now)\<rparr>,
                nextEventTimeDiff = Some (tx - now)\<rparr> \<and>
          (\<forall>j<length (xs @ [x]). \<forall>t'. eventTime p ((xs @ [x]) ! j) = Some t' \<and> now < t' \<longrightarrow>
             tx \<le> t' \<and> (j < length xs \<longrightarrow> tx < t'))"
        by simp
      then show ?thesis by blast
    next
      assume "\<exists>k<length xs. \<exists>t ttl. eventTime p (xs ! k) = Some t \<and> now < t \<and>
          h3Text (xs ! k) = Some ttl \<and>
          st = \<lparr>nextEvent = Some \<lparr>title = ttl, date = f t, days = ceilDays (t - now)\<rparr>,
                nextEventTimeDiff = Some (t - now)\<rparr> \<and>
          (\<forall>j<length xs. \<forall>t'. eventTime p (xs ! j) = Some t' \<and> now < t' \<longrightarrow>
             t \<le> t' \<and> (j < k \<longrightarrow> t < t'))"
      then obtain k t tl where k: "k < length xs" "eventTime p (xs ! k) = Some t" "now < t"
        "h3Text (xs ! k) = Some tl"
        "st = \<lparr>nextEvent = Some \<lparr>title = tl, date = f t, days = ceilDays (t - now)\<rparr>,
                nextEventTimeDiff = Some (t - now)\<rparr>"
        "\<forall>j<length xs. \<forall>t'. eventTime p (xs ! j) = Some t' \<and> now < t' \<longrightarrow>
             t \<le> t' \<and> (j < k \<longrightarrow> t < t')" by blast
      show ?thesis
      proof (cases "tx < t")
        case True
        with tx k(5) have new: "st' = \<lparr>nextEvent = Some \<lparr>title = ttl, date = f tx, days = ceilDays (tx - now)\<rparr>,
                nextEventTimeDiff = Some (tx - now)\<rparr>" by (simp add: st'_def)
        have "\<forall>j<length (xs @ [x]). \<forall>t'. eventTime p ((xs @ [x]) ! j) = Some t' \<and> now < t' \<longrightarrow>
             tx \<le> t' \<and> (j < length xs \<longrightarrow> tx < t')"
        proof (intro allI impI)
          fix j t' assume h: "j < length (xs @ [x])" "eventTime p ((xs @ [x]) ! j) = Some t' \<and> now < t'"
          show "tx \<le> t' \<and> (j < length xs \<longrightarrow> tx < t')"
          proof (cases "j < length xs")
            case jl: True
            with h k(6) have "t \<le> t'" by (auto simp: nth_append)
            with True jl show ?thesis by simp
          next
            case False
            with h have "j = length xs" by simp
            with h tx show ?thesis by simp
          qed
        qed
        with new tx ttl have "length xs < length (xs @ [x]) \<and>
          eventTime p ((xs @ [x]) ! length xs) = Some tx \<and> now < tx \<and>
          h3Text ((xs @ [x]) ! length xs) = Some ttl \<and>
          st' = \<lparr>nextEvent = Some \<lparr>title = ttl, date = f tx, days = ceilDays (tx - now)\<rparr>,
                nextEventTimeDiff = Some (tx - now)\<rparr> \<and>
          (\<forall>j<length (xs @ [x]). \<forall>t'. eventTime p ((xs @ [x]) ! j) = Some t' \<and> now < t' \<longrightarrow>
             tx \<le> t' \<and> (j < length xs \<longrightarrow> tx < t'))"
          by simp
        then show ?thesis by blast
      next
        case False
        with tx k(5) have same: "st' = st" by (simp add: st'_def)
        have "\<forall>j<length (xs @ [x]). \<forall>t'. eventTime p ((xs @ [x]) ! j) = Some t' \<and> now < t' \<longrightarrow>
             t \<le> t' \<and> (j < k \<longrightarrow> t < t')"
        proof (intro allI impI)
          fix j t' assume h: "j < length (xs @ [x])" "eventTime p ((xs @ [x]) ! j) = Some t' \<and> now < t'"
          show "t \<le> t' \<and> (j < k \<longrightarrow> t < t')"
          proof (cases "j < length xs")
            case True
            with h k(6) show ?thesis by (auto simp: nth_append)
          next
            case jl: False
            with h have "j = length xs" by simp
            with h tx False k(1) show ?thesis by simp
          qed
        qed
        with k same have "k < length (xs @ [x]) \<and> eventTime p ((xs @ [x]) ! k) = Some t \<and> now < t \<and>
          h3Text ((xs @ [x]) ! k) = Some tl \<and>
          st' = \<lparr>nextEvent = Some \<lparr>title = tl, date = f t, days = ceilDays (t - now)\<rparr>,
                nextEventTimeDiff = Some (t - now)\<rparr> \<and>
          (\<forall>j<length (xs @ [x]). \<forall>t'. eventTime p ((xs @ [x]) ! j) = Some t' \<and> now < t' \<longrightarrow>
             t \<le> t' \<and> (j < k \<longrightarrow> t < t'))"
          by (simp add: nth_append)
        then show ?thesis by blast
      qed
    qed
  qed
  from run' len inv' show ?case by simp
qed

lemma part000_first_minimal:
  assumes wf: "\<forall>c\<in>set cards. hasCountdown c \<and> h3Text c \<noteq> None"
    and k0: "k0 < length cards" "eventTime p (cards ! k0) = Some t0" "now < t0"
  shows "\<exists>shs st k t ttl.
      updateCountdowns_part000 p f True now cards = Inr (shs, st, bannerOf (nextEvent st)) \<and>
      k < length cards \<and> eventTime p (cards ! k) = Some t \<and> 0 < t - now \<and>
      h3Text (cards ! k) = Some ttl \<and>
      nextEvent st = Some \<lparr>title = ttl, date = f t, days = ceilDays (t - now)\<rparr> \<and>
      nextEventTimeDiff st = Some (t - now) \<and>
      (\<forall>j<length cards. \<forall>t'. eventTime p (cards ! j) = Some t' \<and> 0 < t' - now \<longrightarrow>
         t - now \<le> t' - now \<and> (j < k \<longrightarrow> t - now < t' - now))"
proof -
  from forEachCard_tracks [OF wf, of p f now] obtain shs st where
    run: "forEachCard p f now cards \<lparr>nextEvent = None, nextEventTimeDiff = None\<rparr> = Inr (shs, st)"
    and inv: "(\<forall>j<length cards. \<forall>t. eventTime p (cards ! j) = Some t \<longrightarrow> \<not> now < t) \<and>
         st = \<lparr>nextEvent = None, nextEventTimeDiff = None\<rparr> \<or>
       (\<exists>k<length cards. \<exists>t ttl. eventTime p (cards ! k) = Some t \<and> now < t \<and>
          h3Text (cards ! k) = Some ttl \<and>
          st = \<lparr>nextEvent = Some \<lparr>title = ttl, date = f t, days = ceilDays (t - now)\<rparr>,
                nextEventTimeDiff = Some (t - now)\<rparr> \<and>
          (\<forall>j<length cards. \<forall>t'. eventTime p (cards ! j) = Some t' \<and> now < t' \<longrightarrow>
             t \<le> t' \<and> (j < k \<longrightarrow> t < t')))" by blast
  from k0 have "\<not> (\<forall>j<length cards. \<forall>t. eventTime p (cards ! j) = Some t \<longrightarrow> \<not> now < t)"
    by blast
  with inv obtain k t ttl where k: "k < length cards" "eventTime p (cards ! k) = Some t" "now < t"
    "h3Text (cards ! k) = Some ttl"
    "st = \<lparr>nextEvent = Some \<lparr>title = ttl, date = f t, days = ceilDays (t - now)\<rparr>,
                nextEventTimeDiff = Some (t - now)\<rparr>"
    "\<forall>j<length cards. \<forall>t'. eventTime p (cards ! j) = Some t' \<and> now < t' \<longrightarrow>
             t \<le> t' \<and> (j < k \<longrightarrow> t < t')" by blast
  have upd: "updateCountdowns_part000 p f True now cards = Inr (shs, st, bannerOf (nextEvent st))"
    by (simp add: updateCountdowns_part000_def run)
  have min: "\<forall>j<length cards. \<forall>t'. eventTime p (cards ! j) = Some t' \<and> 0 < t' - now \<longrightarrow>
         t - now \<le> t' - now \<and> (j < k \<longrightarrow> t - now < t' - now)"
    using k(6) by auto
  from k(3) have "0 < t - now" by simp
  with upd k(1,2,4,5) min show ?thesis by auto
qed

section \<open>Which events are candidates\<close>

lemma cardView_HappeningNow:
  "cardView parseDate now c = HappeningNow \<longleftrightarrow>
     hasCountdown c \<and>
     (\<exists>dateStr t. dataDate c = Some dateStr \<and> dateStr \<noteq> [] \<and> parseDate dateStr = Some t \<and>
        t \<le> now \<and> now - t < 3 * 3600 * 1000)"
  by (auto simp: cardView_def cardCallback_def Let_def split: option.splits)

lemma cardView_EventEnded:
  "cardView parseDate now c = EventEnded \<longleftrightarrow>
     hasCountdown c \<and>
     (\<exists>dateStr t. dataDate c = Some dateStr \<and> dateStr \<noteq> [] \<and> parseDate dateStr = Some t \<and>
        t \<le> now \<and> 3 * 3600 * 1000 \<le> now - t)"
  by (auto simp: cardView_def cardCallback_def Let_def split: option.splits)

text \<open>
  C2 as stated fails: an event that began half a second before \<open>now\<close> is inside the
  three-hour window and shows \<open>Happening now\<close>, yet it is not a candidate, and the banner
  says that there are no upcoming events.
\<close>

theorem imminent_not_candidate_counterexample:
  "cardView parseEx 1000 (mkCard ''just'') = HappeningNow \<and>
   viewText HappeningNow = Some ''Happening now'' \<and>
   upcoming parseEx 1000 [mkCard ''just''] = [] \<and>
   updateCountdowns parseEx (\<lambda>_. []) True 1000 [mkCard ''just''] =
     ([HappeningNow], Some (Phrase ''No upcoming events.''))"
proof -
  have v: "cardView parseEx 1000 (mkCard ''just'') = HappeningNow"
    by (simp add: cardView_def cardCallback_def parseEx_def mkCard_def Let_def)
  have u: "upcoming parseEx 1000 [mkCard ''just''] = []"
    by (simp add: upcoming_def cardCallback_entry v)
  show ?thesis
    by (simp add: v u updateCountdowns_def cardCallback_view selectNext_def nextBanner_def)
qed

section \<open>No event to select\<close>

lemma forEachCard_concluded:
  assumes "\<forall>c\<in>set cards. hasCountdown c \<and> (\<exists>t. eventTime p c = Some t \<and> t - now \<le> 0)"
  shows "forEachCard p f now cards st =
         Inr (replicate (length cards) (''Event Concluded'', Some ''past''), st)"
  using assms
proof (induction cards)
  case Nil
  then show ?case by simp
next
  case (Cons c cs)
  then obtain t where "hasCountdown c" "eventTime p c = Some t" "t - now \<le> 0" by auto
  then have "cardStep p f now c st = Inr ((''Event Concluded'', Some ''past''), st)"
    by (simp add: cardStep_def)
  with Cons show ?case by simp
qed

text \<open>
  C7. Over no cards at all, and over cards that all show their event as concluded, the
  selection gives no event and the banner is the fixed phrase: \<open>No upcoming events.\<close> in
  script.js, \<open>No upcoming events scheduled.\<close> in part_000.
\<close>

theorem no_event_selected:
  "selectNext (upcoming parseDate now []) = None \<and>
   updateCountdowns parseDate toLocaleString True now [] =
     ([], Some (Phrase ''No upcoming events.'')) \<and>
   ((\<forall>c\<in>set cards. cardView parseDate now c = EventEnded) \<longrightarrow>
      selectNext (upcoming parseDate now cards) = None \<and>
      updateCountdowns parseDate toLocaleString True now cards =
        (map (\<lambda>c. EventEnded) cards, Some (Phrase ''No upcoming events.''))) \<and>
   updateCountdowns_part000 parseDate toLocaleString True now [] =
     Inr ([], \<lparr>nextEvent = None, nextEventTimeDiff = None\<rparr>,
          Phrase ''No upcoming events scheduled.'') \<and>
   ((\<forall>c\<in>set cards. hasCountdown c \<and> (\<exists>t. eventTime parseDate c = Some t \<and> t - now \<le> 0)) \<longrightarrow>
      updateCountdowns_part000 parseDate toLocaleString True now cards =
        Inr (replicate (length cards) (''Event Concluded'', Some ''past''),
             \<lparr>nextEvent = None, nextEventTimeDiff = None\<rparr>,
             Phrase ''No upcoming events scheduled.''))"
proof -
  have e: "upcoming parseDate now [] = []" by (simp add: upcoming_def)
  have a: "selectNext (upcoming parseDate now []) = None" by (simp add: e selectNext_def)
  have b: "updateCountdowns parseDate toLocaleString True now [] =
     ([], Some (Phrase ''No upcoming events.''))"
    by (simp add: updateCountdowns_def e selectNext_def nextBanner_def)
  have c: "selectNext (upcoming parseDate now cards) = None \<and>
      updateCountdowns parseDate toLocaleString True now cards =
        (map (\<lambda>c. EventEnded) cards, Some (Phrase ''No upcoming events.''))"
    if h: "\<forall>c\<in>set cards. cardView parseDate now c = EventEnded"
  proof -
    from h have "\<forall>c\<in>set cards. \<forall>d. cardView parseDate now c \<noteq> StartsIn d" by simp
    then have u: "upcoming parseDate now cards = []" by (rule upcoming_empty)
    have "map (\<lambda>ic. fst (cardCallback parseDate now ic)) (enumerate 0 cards) =
          map (\<lambda>c. EventEnded) cards"
    proof (rule nth_equalityI)
      show "length (map (\<lambda>ic. fst (cardCallback parseDate now ic)) (enumerate 0 cards)) =
            length (map (\<lambda>c. EventEnded) cards)" by simp
      fix i assume "i < length (map (\<lambda>ic. fst (cardCallback parseDate now ic)) (enumerate 0 cards))"
      then have i: "i < length cards" by simp
      with h have "cardView parseDate now (cards ! i) = EventEnded" by simp
      with i show "map (\<lambda>ic. fst (cardCallback parseDate now ic)) (enumerate 0 cards) ! i =
            map (\<lambda>c. EventEnded) cards ! i"
        by (simp add: nth_enumerate_eq cardCallback_view)
    qed
    then show ?thesis by (simp add: updateCountdowns_def u selectNext_def nextBanner_def)
  qed
  have d: "updateCountdowns_part000 parseDate toLocaleString True now [] =
     Inr ([], \<lparr>nextEvent = None, nextEventTimeDiff = None\<rparr>,
          Phrase ''No upcoming events scheduled.'')"
    by (simp add: updateCountdowns_part000_def bannerOf_def)
  have f: "updateCountdowns_part000 parseDate toLocaleString True now cards =
        Inr (replicate (length cards) (''Event Concluded'', Some ''past''),
             \<lparr>nextEvent = None, nextEventTimeDiff = None\<rparr>,
             Phrase ''No upcoming events scheduled.'')"
    if "\<forall>c\<in>set cards. hasCountdown c \<and> (\<exists>t. eventTime parseDate c = Some t \<and> t - now \<le> 0)"
    using forEachCard_concluded [OF that]
    by (simp add: updateCountdowns_part000_def bannerOf_def)
  from a b c d f show ?thesis by blast
qed

theorem no_event_selected_witness:
  "cardView parseEx 1000 (mkCard ''old'') = EventEnded \<and>
   selectNext (upcoming parseEx 1000 (map mkCard [''old'', ''old''])) = None \<and>
   updateCountdowns parseEx (\<lambda>_. []) True 1000 (map mkCard [''old'', ''old'']) =
     ([EventEnded, EventEnded], Some (Phrase ''No upcoming events.'')) \<and>
   hasCountdown (mkCard ''old'') \<and> eventTime parseEx (mkCard ''old'') = Some (- 99999999) \<and>
   (- 99999999::int) - 1000 \<le> 0 \<and>
   updateCountdowns_part000 parseEx (\<lambda>_. []) True 1000 (map mkCard [''old'', ''old'']) =
     Inr ([(''Event Concluded'', Some ''past''), (''Event Concluded'', Some ''past'')],
          \<lparr>nextEvent = None, nextEventTimeDiff = None\<rparr>,
          Phrase ''No upcoming events scheduled.'')"
proof -
  have v: "cardView parseEx 1000 (mkCard ''old'') = EventEnded"
    by (simp add: cardView_def cardCallback_def parseEx_def mkCard_def Let_def)
  have t: "hasCountdown (mkCard ''old'')" "eventTime parseEx (mkCard ''old'') = Some (- 99999999)"
    by (simp_all add: eventTime_def parseEx_def mkCard_def)
  from no_event_selected [of parseEx 1000 "\<lambda>_. []" "map mkCard [''old'', ''old'']"] v t
  show ?thesis by (simp add: numeral_2_eq_2)
qed

section \<open>Dates that cannot be read\<close>

text \<open>
  In script.js a card with a countdown element whose date cannot be read shows
  \<open>Invalid date format\<close> (\<open>No date set\<close> when the attribute is missing or empty), is
  not pushed onto \<open>upcoming\<close>, and the views of the other cards do not depend on it.
\<close>

lemma invalid_date_script:
  assumes "k < length cards" "hasCountdown (cards ! k)"
    and "dataDate (cards ! k) = Some dateStr" "parseDate dateStr = None"
  shows "fst (updateCountdowns parseDate toLocaleString hasBanner now cards) ! k =
           (if dateStr = [] then NoDateSet else InvalidDateFormat)"
    and "k \<notin> cardIx ` set (upcoming parseDate now cards)"
    and "\<forall>j<length cards. fst (updateCountdowns parseDate toLocaleString hasBanner now cards) ! j =
           cardView parseDate now (cards ! j)"
proof -
  have all: "fst (updateCountdowns parseDate toLocaleString hasBanner now cards) ! j =
           cardView parseDate now (cards ! j)" if "j < length cards" for j
    using that by (simp add: updateCountdowns_def nth_enumerate_eq cardCallback_view)
  have v: "cardView parseDate now (cards ! k) = (if dateStr = [] then NoDateSet else InvalidDateFormat)"
    using assms by (simp add: cardView_def cardCallback_def)
  from all [OF assms(1)] v
  show "fst (updateCountdowns parseDate toLocaleString hasBanner now cards) ! k =
           (if dateStr = [] then NoDateSet else InvalidDateFormat)" by simp
  from v show "k \<notin> cardIx ` set (upcoming parseDate now cards)"
    unfolding upcoming_indices by (simp split: if_splits)
  from all show "\<forall>j<length cards.
      fst (updateCountdowns parseDate toLocaleString hasBanner now cards) ! j =
           cardView parseDate now (cards ! j)" by blast
qed

text \<open>
  C6 at a card of part_000 whose date is the word \<open>soon\<close>, which no parser reads:
  \<open>updateCountdowns\<close> of part_000 takes the branch of the events to come and shows
  \<open>in NaN days\<close>, with no class and no status of its own; the event is not selected and
  nothing is thrown. On the same card script.js shows \<open>Invalid date format\<close>.
\<close>

theorem unparsable_date_part000:
  "parseEx ''soon'' = None \<and>
   updateCountdowns_part000 parseEx (\<lambda>_. []) True 1000 [mkCard ''soon''] =
     Inr ([(''in NaN days'', None)], \<lparr>nextEvent = None, nextEventTimeDiff = None\<rparr>,
          Phrase ''No upcoming events scheduled.'') \<and>
   updateCountdowns parseEx (\<lambda>_. []) True 1000 [mkCard ''soon''] =
     ([InvalidDateFormat], Some (Phrase ''No upcoming events.''))"
proof -
  have p: "parseEx ''soon'' = None" by (simp add: parseEx_def)
  have a: "updateCountdowns_part000 parseEx (\<lambda>_. []) True 1000 [mkCard ''soon''] =
     Inr ([(''in NaN days'', None)], \<lparr>nextEvent = None, nextEventTimeDiff = None\<rparr>,
          Phrase ''No upcoming events scheduled.'')"
    by (simp add: updateCountdowns_part000_def cardStep_def eventTime_def mkCard_def p bannerOf_def)
  have v: "cardView parseEx 1000 (mkCard ''soon'') = InvalidDateFormat"
    by (simp add: cardView_def cardCallback_def mkCard_def p)
  have u: "upcoming parseEx 1000 [mkCard ''soon''] = []"
    by (simp add: upcoming_def cardCallback_entry v)
  have b: "updateCountdowns parseEx (\<lambda>_. []) True 1000 [mkCard ''soon''] =
     ([InvalidDateFormat], Some (Phrase ''No upcoming events.''))"
    by (simp add: updateCountdowns_def cardCallback_view v u selectNext_def nextBanner_def)
  from p a b show ?thesis by simp
qed

section \<open>Weekly occurrences\<close>



















section \<open>The next worship and the next prayer\<close>


lemmas zone_fields = isOccurrence_def getDay_def getHours_def getMinutes_def getSeconds_def
  getMilliseconds_def WeekDay_def Day_def HourFromTime_def MinFromTime_def SecFromTime_def
  msFromTime_def LocalTime_def UTC_def MakeDate_def MakeTime_def TimeWithinDay_def msPerDay_def



section \<open>The next event in the banner\<close>

lemma cardView_StartsIn_date:
  "cardView parseDate now c = StartsIn d \<longleftrightarrow>
     hasCountdown c \<and>
     (\<exists>s t. dataDate c = Some s \<and> s \<noteq> [] \<and> parseDate s = Some t \<and> now < t \<and> d = t - now)"
  by (auto simp: cardView_StartsIn)

lemma banner_of_selection:
  assumes "selectNext (upcoming parseDate now cards) = Some \<lparr>cardIx = k, eventDate = t, diff = d\<rparr>"
  shows "snd (updateCountdowns parseDate toLocaleString True now cards) =
         Some (NextEvent (nextTitle (cards ! k)) (toLocaleString t)
                 (''Starts in '' @ formatRemaining (Some d)))"
  using assms by (simp add: updateCountdowns_def nextBanner_def)

lemma script_first_minimal:
  assumes "k0 < length cards" "hasCountdown (cards ! k0)" "dataDate (cards ! k0) = Some s0"
    "s0 \<noteq> []" "parseDate s0 = Some t0" "now < t0"
  shows "\<exists>k s t. k < length cards \<and> hasCountdown (cards ! k) \<and> dataDate (cards ! k) = Some s \<and>
      s \<noteq> [] \<and> parseDate s = Some t \<and> now < t \<and>
      snd (updateCountdowns parseDate toLocaleString True now cards) =
        Some (NextEvent (nextTitle (cards ! k)) (toLocaleString t)
                (''Starts in '' @ formatRemaining (Some (t - now)))) \<and>
      (\<forall>j s' t'. j < length cards \<and> hasCountdown (cards ! j) \<and> dataDate (cards ! j) = Some s' \<and>
         s' \<noteq> [] \<and> parseDate s' = Some t' \<and> now < t' \<longrightarrow>
         t - now \<le> t' - now \<and> (j < k \<longrightarrow> t - now < t' - now))"
proof -
  from assms have "cardView parseDate now (cards ! k0) = StartsIn (t0 - now)"
    unfolding cardView_StartsIn_date by blast
  from selectNext_first_minimal [OF assms(1) this] obtain k d where k: "k < length cards"
    "selectNext (upcoming parseDate now cards) = Some \<lparr>cardIx = k, eventDate = d + now, diff = d\<rparr>"
    "cardView parseDate now (cards ! k) = StartsIn d"
    "\<forall>j<length cards. \<forall>d'. cardView parseDate now (cards ! j) = StartsIn d' \<longrightarrow>
        d \<le> d' \<and> (j < k \<longrightarrow> d < d')" by blast
  from k(3) obtain s t where st: "hasCountdown (cards ! k)" "dataDate (cards ! k) = Some s"
    "s \<noteq> []" "parseDate s = Some t" "now < t" "d = t - now"
    unfolding cardView_StartsIn_date by blast
  from banner_of_selection [OF k(2), of toLocaleString] st(6)
  have b: "snd (updateCountdowns parseDate toLocaleString True now cards) =
        Some (NextEvent (nextTitle (cards ! k)) (toLocaleString t)
                (''Starts in '' @ formatRemaining (Some (t - now))))" by simp
  have m: "t - now \<le> t' - now \<and> (j < k \<longrightarrow> t - now < t' - now)"
    if "j < length cards" "hasCountdown (cards ! j)" "dataDate (cards ! j) = Some s'"
      "s' \<noteq> []" "parseDate s' = Some t'" "now < t'" for j s' t'
  proof -
    from that have "cardView parseDate now (cards ! j) = StartsIn (t' - now)"
      unfolding cardView_StartsIn_date by blast
    with k(4) that(1) st(6) show ?thesis by blast
  qed
  from k(1) st(1-5) b m show ?thesis by blast
qed

lemma part000_banner_first_minimal:
  assumes wf: "\<forall>c\<in>set cards. hasCountdown c \<and> h3Text c \<noteq> None"
    and k0: "k0 < length cards"
      "(case dataDate (cards ! k0) of None \<Rightarrow> Some 0 | Some dateStr \<Rightarrow> parseDate dateStr) = Some t0"
      "now < t0"
  shows "\<exists>shs st k t ttl.
      updateCountdowns_part000 parseDate toLocaleDateString True now cards =
        Inr (shs, st,
             NextEvent ttl (toLocaleDateString t)
               (if ceilDays (t - now) > 0 then ''in '' @ showNumber (ceilDays (t - now)) @ '' days''
                else ''TODAY'')) \<and>
      k < length cards \<and>
      (case dataDate (cards ! k) of None \<Rightarrow> Some 0 | Some dateStr \<Rightarrow> parseDate dateStr) = Some t \<and>
      now < t \<and> h3Text (cards ! k) = Some ttl \<and> nextEventTimeDiff st = Some (t - now) \<and>
      (\<forall>j t'. j < length cards \<and>
         (case dataDate (cards ! j) of None \<Rightarrow> Some 0 | Some dateStr \<Rightarrow> parseDate dateStr) = Some t' \<and>
         now < t' \<longrightarrow> t - now \<le> t' - now \<and> (j < k \<longrightarrow> t - now < t' - now))"
proof -
  from k0 have e0: "eventTime parseDate (cards ! k0) = Some t0" by (simp add: eventTime_def)
  from part000_first_minimal [OF wf k0(1) e0 k0(3), of toLocaleDateString]
  obtain shs st k t ttl where r:
    "updateCountdowns_part000 parseDate toLocaleDateString True now cards =
       Inr (shs, st, bannerOf (nextEvent st))"
    "k < length cards" "eventTime parseDate (cards ! k) = Some t" "0 < t - now"
    "h3Text (cards ! k) = Some ttl"
    "nextEvent st = Some \<lparr>title = ttl, date = toLocaleDateString t, days = ceilDays (t - now)\<rparr>"
    "nextEventTimeDiff st = Some (t - now)"
    "\<forall>j<length cards. \<forall>t'. eventTime parseDate (cards ! j) = Some t' \<and> 0 < t' - now \<longrightarrow>
         t - now \<le> t' - now \<and> (j < k \<longrightarrow> t - now < t' - now)" by blast
  from r(1,6) have b: "updateCountdowns_part000 parseDate toLocaleDateString True now cards =
        Inr (shs, st,
             NextEvent ttl (toLocaleDateString t)
               (if ceilDays (t - now) > 0 then ''in '' @ showNumber (ceilDays (t - now)) @ '' days''
                else ''TODAY''))"
    by (simp add: bannerOf_def)
  from r(3) have e: "(case dataDate (cards ! k) of None \<Rightarrow> Some 0
      | Some dateStr \<Rightarrow> parseDate dateStr) = Some t" by (simp add: eventTime_def)
  from r(4) have lt: "now < t" by simp
  have m: "t - now \<le> t' - now \<and> (j < k \<longrightarrow> t - now < t' - now)"
    if "j < length cards"
      "(case dataDate (cards ! j) of None \<Rightarrow> Some 0 | Some dateStr \<Rightarrow> parseDate dateStr) = Some t'"
      "now < t'" for j t'
  proof -
    from that(2) have "eventTime parseDate (cards ! j) = Some t'" by (simp add: eventTime_def)
    moreover from that(3) have "0 < t' - now" by simp
    ultimately show ?thesis using r(8) that(1) by blast
  qed
  from b r(2) e lt r(5,7) m show ?thesis by blast
qed

text \<open>
  C1, as the code has it. In script.js a card without a countdown element is skipped.
  When some card with a countdown element has a date, not empty and readable, that lies
  after \<open>now\<close>, the banner written by \<open>updateCountdowns\<close> shows the title, the date and the
  remaining time of such a card whose remaining time no other such card undercuts, and
  every such card listed before it has a strictly larger remaining time: among equals
  the first listed is shown. In part_000, when every card has a countdown element and a
  heading and some card has a date after \<open>now\<close>, the banner and the tracked minimum are
  those of a card with a date after \<open>now\<close> whose remaining time is minimal, the first
  listed among equals.
\<close>

theorem next_event_first_minimal:
  "(k0 < length cards \<and> hasCountdown (cards ! k0) \<and> dataDate (cards ! k0) = Some s0 \<and>
    s0 \<noteq> [] \<and> parseDate s0 = Some t0 \<and> now < t0 \<longrightarrow>
      (\<exists>k s t. k < length cards \<and> hasCountdown (cards ! k) \<and> dataDate (cards ! k) = Some s \<and>
         s \<noteq> [] \<and> parseDate s = Some t \<and> now < t \<and>
         snd (updateCountdowns parseDate toLocaleString True now cards) =
           Some (NextEvent (nextTitle (cards ! k)) (toLocaleString t)
                   (''Starts in '' @ formatRemaining (Some (t - now)))) \<and>
         (\<forall>j s' t'. j < length cards \<and> hasCountdown (cards ! j) \<and>
            dataDate (cards ! j) = Some s' \<and> s' \<noteq> [] \<and> parseDate s' = Some t' \<and> now < t' \<longrightarrow>
            t - now \<le> t' - now \<and> (j < k \<longrightarrow> t - now < t' - now)))) \<and>
   ((\<forall>c\<in>set cards. hasCountdown c \<and> h3Text c \<noteq> None) \<and> k0 < length cards \<and>
    (case dataDate (cards ! k0) of None \<Rightarrow> Some 0 | Some dateStr \<Rightarrow> parseDate dateStr) = Some t0 \<and>
    now < t0 \<longrightarrow>
      (\<exists>shs st k t ttl.
         updateCountdowns_part000 parseDate toLocaleString True now cards =
           Inr (shs, st,
                NextEvent ttl (toLocaleString t)
                  (if ceilDays (t - now) > 0
                   then ''in '' @ showNumber (ceilDays (t - now)) @ '' days'' else ''TODAY'')) \<and>
         k < length cards \<and>
         (case dataDate (cards ! k) of None \<Rightarrow> Some 0 | Some dateStr \<Rightarrow> parseDate dateStr) = Some t \<and>
         now < t \<and> h3Text (cards ! k) = Some ttl \<and> nextEventTimeDiff st = Some (t - now) \<and>
         (\<forall>j t'. j < length cards \<and>
            (case dataDate (cards ! j) of None \<Rightarrow> Some 0 | Some dateStr \<Rightarrow> parseDate dateStr) =
              Some t' \<and> now < t' \<longrightarrow>
            t - now \<le> t' - now \<and> (j < k \<longrightarrow> t - now < t' - now))))"
  using script_first_minimal [of k0 cards s0 parseDate t0 now toLocaleString]
    part000_banner_first_minimal [of cards k0 parseDate t0 now toLocaleString]
  by blast

theorem next_event_first_minimal_witness:
  "(0::nat) < length [titled ''A'' ''late'', titled ''B'' ''early'', titled ''C'' ''early''] \<and>
   hasCountdown (titled ''A'' ''late'') \<and> dataDate (titled ''A'' ''late'') = Some ''late'' \<and>
   parseEx ''late'' = Some 9000 \<and> parseEx ''early'' = Some 5000 \<and> (1000::int) < 9000 \<and>
   snd (updateCountdowns parseEx (\<lambda>_. []) True 1000
          [titled ''A'' ''late'', titled ''B'' ''early'', titled ''C'' ''early'']) =
     Some (NextEvent ''B'' [] ''Starts in 0d 0h 0m 4s'') \<and>
   (\<exists>shs st. updateCountdowns_part000 parseEx (\<lambda>_. []) True 1000
        [titled ''A'' ''late'', titled ''B'' ''early'', titled ''C'' ''early''] =
        Inr (shs, st, NextEvent ''B'' [] ''in 1 days'') \<and>
      nextEventTimeDiff st = Some 4000)"
proof -
  let ?cs = "[titled ''A'' ''late'', titled ''B'' ''early'', titled ''C'' ''early'']"
  have p: "parseEx ''late'' = Some 9000" "parseEx ''early'' = Some 5000"
    by (simp_all add: parseEx_def)
  have v: "cardView parseEx 1000 (titled ''A'' ''late'') = StartsIn 8000"
    "cardView parseEx 1000 (titled ''B'' ''early'') = StartsIn 4000"
    "cardView parseEx 1000 (titled ''C'' ''early'') = StartsIn 4000"
    by (simp_all add: cardView_def cardCallback_def p titled_def Let_def)
  have u: "upcoming parseEx 1000 ?cs =
      [\<lparr>cardIx = 0, eventDate = 9000, diff = 8000\<rparr>,
       \<lparr>cardIx = 1, eventDate = 5000, diff = 4000\<rparr>,
       \<lparr>cardIx = 2, eventDate = 5000, diff = 4000\<rparr>]"
    by (simp add: upcoming_def cardCallback_entry v)
  have s: "selectNext (upcoming parseEx 1000 ?cs) = Some \<lparr>cardIx = 1, eventDate = 5000, diff = 4000\<rparr>"
    unfolding u by (simp add: selectNext_def)
  have b: "snd (updateCountdowns parseEx (\<lambda>_. []) True 1000 ?cs) =
     Some (NextEvent ''B'' [] ''Starts in 0d 0h 0m 4s'')"
    unfolding banner_of_selection [OF s]
    by (simp add: nextTitle_def titled_def formatRemaining_def showNat_small digitChar_def)
  have w: "\<forall>c\<in>set ?cs. hasCountdown c \<and> h3Text c \<noteq> None" by (simp add: titled_def)
  have e0: "(case dataDate (?cs ! 0) of None \<Rightarrow> Some 0 | Some dateStr \<Rightarrow> parseEx dateStr) = Some 9000"
    by (simp add: titled_def p)
  have hyp: "(\<forall>c\<in>set ?cs. hasCountdown c \<and> h3Text c \<noteq> None) \<and> 0 < length ?cs \<and>
      (case dataDate (?cs ! 0) of None \<Rightarrow> Some 0 | Some dateStr \<Rightarrow> parseEx dateStr) = Some 9000 \<and>
      (1000::int) < 9000"
    using w e0 by simp
  from mp [OF next_event_first_minimal [of 0 ?cs "''late''" parseEx 9000 1000 "\<lambda>_. []",
        THEN conjunct2] hyp]
  obtain shs st k t ttl where r:
    "updateCountdowns_part000 parseEx (\<lambda>_. []) True 1000 ?cs =
       Inr (shs, st, NextEvent ttl []
         (if ceilDays (t - 1000) > 0 then ''in '' @ showNumber (ceilDays (t - 1000)) @ '' days''
          else ''TODAY''))"
    "k < length ?cs"
    "(case dataDate (?cs ! k) of None \<Rightarrow> Some 0 | Some dateStr \<Rightarrow> parseEx dateStr) = Some t"
    "h3Text (?cs ! k) = Some ttl" "nextEventTimeDiff st = Some (t - 1000)"
    "\<forall>j t'. j < length ?cs \<and>
       (case dataDate (?cs ! j) of None \<Rightarrow> Some 0 | Some dateStr \<Rightarrow> parseEx dateStr) = Some t' \<and>
       1000 < t' \<longrightarrow> t - 1000 \<le> t' - 1000 \<and> (j < k \<longrightarrow> t - 1000 < t' - 1000)"
    by blast
  have e1: "(case dataDate (?cs ! 1) of None \<Rightarrow> Some 0 | Some dateStr \<Rightarrow> parseEx dateStr) = Some 5000"
    by (simp add: titled_def p)
  from r(6) [rule_format, of 1 5000] e1
  have le: "t \<le> 5000" and lt: "1 < k \<longrightarrow> t < 5000" by auto
  from r(2) have "k = 0 \<or> k = 1 \<or> k = 2" by auto
  then have k: "k = 1"
  proof (elim disjE)
    assume "k = 0"
    with r(3) p have "t = 9000" by (simp add: titled_def)
    with le show ?thesis by simp
  next
    assume "k = 1"
    then show ?thesis .
  next
    assume "k = 2"
    with r(3) p have "t = 5000" by (simp add: titled_def)
    with lt \<open>k = 2\<close> show ?thesis by simp
  qed
  with r(3) p have t: "t = 5000" by (simp add: titled_def)
  from r(4) k have ttl: "ttl = ''B''" by (simp add: titled_def)
  have d: "ceilDays 4000 = 1" by (simp add: ceilDays_def)
  from r(1,5) t ttl d have "updateCountdowns_part000 parseEx (\<lambda>_. []) True 1000 ?cs =
        Inr (shs, st, NextEvent ''B'' [] ''in 1 days'') \<and> nextEventTimeDiff st = Some 4000"
    by (simp add: showNumber_def showNat_small digitChar_def)
  then have "\<exists>shs st. updateCountdowns_part000 parseEx (\<lambda>_. []) True 1000 ?cs =
        Inr (shs, st, NextEvent ''B'' [] ''in 1 days'') \<and> nextEventTimeDiff st = Some 4000"
    by blast
  with p b show ?thesis by (simp add: titled_def)
qed

text \<open>
  C1 as stated fails on a list whose soonest event is a card without a countdown
  element: script.js skips that card and shows the later event, and part_000 throws
  at that card. part_000 also throws at a card to come that has no heading.
\<close>

theorem skipped_card_counterexample:
  "parseEx ''early'' = Some 5000 \<and> parseEx ''late'' = Some 9000 \<and>
   (1000::int) < 5000 \<and> (5000::int) - 1000 < 9000 - 1000 \<and>
   updateCountdowns parseEx (\<lambda>_. []) True 1000 [noCountdown ''early'', mkCard ''late''] =
     ([NoElement, StartsIn 8000], Some (NextEvent ''late'' [] ''Starts in 0d 0h 0m 8s'')) \<and>
   updateCountdowns_part000 parseEx (\<lambda>_. []) True 1000 [noCountdown ''early'', mkCard ''late''] =
     Inl TypeError \<and>
   updateCountdowns_part000 parseEx (\<lambda>_. []) True 1000 [noHeading ''early''] = Inl TypeError"
proof -
  have p: "parseEx ''late'' = Some 9000" "parseEx ''early'' = Some 5000"
    by (simp_all add: parseEx_def)
  have v: "cardView parseEx 1000 (noCountdown ''early'') = NoElement"
    "cardView parseEx 1000 (mkCard ''late'') = StartsIn 8000"
    by (simp_all add: cardView_def cardCallback_def p noCountdown_def mkCard_def Let_def)
  have u: "upcoming parseEx 1000 [noCountdown ''early'', mkCard ''late''] =
      [\<lparr>cardIx = 1, eventDate = 9000, diff = 8000\<rparr>]"
    by (simp add: upcoming_def cardCallback_entry v)
  have s: "selectNext (upcoming parseEx 1000 [noCountdown ''early'', mkCard ''late'']) =
      Some \<lparr>cardIx = 1, eventDate = 9000, diff = 8000\<rparr>"
    unfolding u by (simp add: selectNext_def)
  have a2: "snd (updateCountdowns parseEx (\<lambda>_. []) True 1000 [noCountdown ''early'', mkCard ''late'']) =
      Some (NextEvent ''late'' [] ''Starts in 0d 0h 0m 8s'')"
    unfolding banner_of_selection [OF s]
    by (simp add: nextTitle_def mkCard_def formatRemaining_def showNat_small digitChar_def)
  have a1: "fst (updateCountdowns parseEx (\<lambda>_. []) True 1000 [noCountdown ''early'', mkCard ''late'']) =
      [NoElement, StartsIn 8000]"
    by (simp add: updateCountdowns_def cardCallback_view v)
  from a1 a2 have a: "updateCountdowns parseEx (\<lambda>_. []) True 1000
      [noCountdown ''early'', mkCard ''late''] =
     ([NoElement, StartsIn 8000], Some (NextEvent ''late'' [] ''Starts in 0d 0h 0m 8s''))"
    by (simp add: prod_eq_iff)
  have b: "updateCountdowns_part000 parseEx (\<lambda>_. []) True 1000
      [noCountdown ''early'', mkCard ''late''] = Inl TypeError"
    by (simp add: updateCountdowns_part000_def cardStep_def eventTime_def noCountdown_def p
        Let_def)
  have c: "updateCountdowns_part000 parseEx (\<lambda>_. []) True 1000 [noHeading ''early''] =
      Inl TypeError"
    by (simp add: updateCountdowns_part000_def cardStep_def eventTime_def noHeading_def p
        Let_def)
  from p a b c show ?thesis by simp
qed

section \<open>The candidates of the banner\<close>

lemma upcoming_dates:
  "cardIx ` set (upcoming parseDate now cards) =
     {k. k < length cards \<and> hasCountdown (cards ! k) \<and>
         (\<exists>s t. dataDate (cards ! k) = Some s \<and> s \<noteq> [] \<and> parseDate s = Some t \<and> now < t)}"
  unfolding upcoming_indices by (auto simp: cardView_StartsIn_date)

lemma banner_candidate:
  assumes "upcoming parseDate now cards \<noteq> []"
  shows "\<exists>k s t. k \<in> cardIx ` set (upcoming parseDate now cards) \<and>
      dataDate (cards ! k) = Some s \<and> parseDate s = Some t \<and>
      snd (updateCountdowns parseDate toLocaleString True now cards) =
        Some (NextEvent (nextTitle (cards ! k)) (toLocaleString t)
                (''Starts in '' @ formatRemaining (Some (t - now))))"
proof -
  let ?ups = "upcoming parseDate now cards"
  from assms obtain e where "e \<in> set ?ups" by (cases ?ups) auto
  then obtain k0 d0 where "k0 < length cards" "cardView parseDate now (cards ! k0) = StartsIn d0"
    unfolding upcoming_set by blast
  from selectNext_first_minimal [OF this] obtain k d where k: "k < length cards"
    "selectNext ?ups = Some \<lparr>cardIx = k, eventDate = d + now, diff = d\<rparr>"
    "cardView parseDate now (cards ! k) = StartsIn d" by blast
  from k(3) obtain s t where st: "dataDate (cards ! k) = Some s" "parseDate s = Some t"
    "d = t - now" unfolding cardView_StartsIn_date by blast
  from k(1,3) have "k \<in> cardIx ` set ?ups" unfolding upcoming_indices by blast
  moreover from banner_of_selection [OF k(2), of toLocaleString] st(3)
  have "snd (updateCountdowns parseDate toLocaleString True now cards) =
        Some (NextEvent (nextTitle (cards ! k)) (toLocaleString t)
                (''Starts in '' @ formatRemaining (Some (t - now))))" by simp
  ultimately show ?thesis using st(1,2) by blast
qed

text \<open>
  C2, as the code has it. The candidates of the next-event selection of script.js are
  exactly the cards with a countdown element whose date, not empty and readable, lies
  strictly after \<open>now\<close>. With no candidate the banner written by \<open>updateCountdowns\<close> is
  \<open>No upcoming events.\<close>; otherwise it shows a candidate. A card whose date lies at or
  before \<open>now\<close> and less than three hours back shows \<open>Happening now\<close> and is not a
  candidate.
\<close>

theorem candidates_are_upcoming:
  "cardIx ` set (upcoming parseDate now cards) =
     {k. k < length cards \<and> hasCountdown (cards ! k) \<and>
         (\<exists>s t. dataDate (cards ! k) = Some s \<and> s \<noteq> [] \<and> parseDate s = Some t \<and> now < t)} \<and>
   (upcoming parseDate now cards = [] \<longrightarrow>
      snd (updateCountdowns parseDate toLocaleString True now cards) =
        Some (Phrase ''No upcoming events.'')) \<and>
   (upcoming parseDate now cards \<noteq> [] \<longrightarrow>
      (\<exists>k s t. k \<in> cardIx ` set (upcoming parseDate now cards) \<and>
         dataDate (cards ! k) = Some s \<and> parseDate s = Some t \<and>
         snd (updateCountdowns parseDate toLocaleString True now cards) =
           Some (NextEvent (nextTitle (cards ! k)) (toLocaleString t)
                   (''Starts in '' @ formatRemaining (Some (t - now)))))) \<and>
   (\<forall>k s t. k < length cards \<and> hasCountdown (cards ! k) \<and> dataDate (cards ! k) = Some s \<and>
      s \<noteq> [] \<and> parseDate s = Some t \<and> t \<le> now \<and> now - t < 3 * 3600 * 1000 \<longrightarrow>
      fst (updateCountdowns parseDate toLocaleString True now cards) ! k = HappeningNow \<and>
      viewText HappeningNow = Some ''Happening now'' \<and>
      k \<notin> cardIx ` set (upcoming parseDate now cards))"
proof -
  have b: "snd (updateCountdowns parseDate toLocaleString True now cards) =
        Some (Phrase ''No upcoming events.'')" if "upcoming parseDate now cards = []"
    using that by (simp add: updateCountdowns_def selectNext_def nextBanner_def)
  have d: "fst (updateCountdowns parseDate toLocaleString True now cards) ! k = HappeningNow \<and>
      viewText HappeningNow = Some ''Happening now'' \<and>
      k \<notin> cardIx ` set (upcoming parseDate now cards)"
    if "k < length cards" "hasCountdown (cards ! k)" "dataDate (cards ! k) = Some s" "s \<noteq> []"
      "parseDate s = Some t" "t \<le> now" "now - t < 3 * 3600 * 1000" for k s t
  proof -
    from that have v: "cardView parseDate now (cards ! k) = HappeningNow"
      unfolding cardView_HappeningNow by blast
    from that(1) have "fst (updateCountdowns parseDate toLocaleString True now cards) ! k =
        cardView parseDate now (cards ! k)"
      by (simp add: updateCountdowns_def nth_enumerate_eq cardCallback_view)
    moreover from v have "k \<notin> cardIx ` set (upcoming parseDate now cards)"
      unfolding upcoming_indices by simp
    ultimately show ?thesis using v by simp
  qed
  from upcoming_dates [of parseDate now cards] b
    banner_candidate [of parseDate now cards toLocaleString] d
  show ?thesis by blast
qed

theorem candidates_are_upcoming_witness:
  "cardIx ` set (upcoming parseEx 1000 [titled ''A'' ''just'', titled ''B'' ''early'']) = {1} \<and>
   snd (updateCountdowns parseEx (\<lambda>_. []) True 1000 [titled ''A'' ''just'', titled ''B'' ''early'']) =
     Some (NextEvent ''B'' [] ''Starts in 0d 0h 0m 4s'') \<and>
   parseEx ''just'' = Some 500 \<and> (500::int) \<le> 1000 \<and> (1000::int) - 500 < 3 * 3600 * 1000 \<and>
   fst (updateCountdowns parseEx (\<lambda>_. []) True 1000 [titled ''A'' ''just'', titled ''B'' ''early'']) ! 0 =
     HappeningNow \<and>
   0 \<notin> cardIx ` set (upcoming parseEx 1000 [titled ''A'' ''just'', titled ''B'' ''early''])"
proof -
  let ?cs = "[titled ''A'' ''just'', titled ''B'' ''early'']"
  have p: "parseEx ''just'' = Some 500" "parseEx ''early'' = Some 5000"
    by (simp_all add: parseEx_def)
  have v: "cardView parseEx 1000 (titled ''A'' ''just'') = HappeningNow"
    "cardView parseEx 1000 (titled ''B'' ''early'') = StartsIn 4000"
    by (simp_all add: cardView_def cardCallback_def p titled_def Let_def)
  have u: "upcoming parseEx 1000 ?cs = [\<lparr>cardIx = 1, eventDate = 5000, diff = 4000\<rparr>]"
    by (simp add: upcoming_def cardCallback_entry v)
  have s: "selectNext (upcoming parseEx 1000 ?cs) = Some \<lparr>cardIx = 1, eventDate = 5000, diff = 4000\<rparr>"
    unfolding u by (simp add: selectNext_def)
  have b: "snd (updateCountdowns parseEx (\<lambda>_. []) True 1000 ?cs) =
     Some (NextEvent ''B'' [] ''Starts in 0d 0h 0m 4s'')"
    unfolding banner_of_selection [OF s]
    by (simp add: nextTitle_def titled_def formatRemaining_def showNat_small digitChar_def)
  have hyp: "0 < length ?cs \<and> hasCountdown (?cs ! 0) \<and> dataDate (?cs ! 0) = Some ''just'' \<and>
      ''just'' \<noteq> [] \<and> parseEx ''just'' = Some 500 \<and> (500::int) \<le> 1000 \<and>
      (1000::int) - 500 < 3 * 3600 * 1000"
    by (simp add: titled_def p)
  note c = candidates_are_upcoming [of parseEx 1000 ?cs "\<lambda>_. []"]
  from c have "\<forall>k s t. k < length ?cs \<and> hasCountdown (?cs ! k) \<and> dataDate (?cs ! k) = Some s \<and>
      s \<noteq> [] \<and> parseEx s = Some t \<and> t \<le> 1000 \<and> 1000 - t < 3 * 3600 * 1000 \<longrightarrow>
      fst (updateCountdowns parseEx (\<lambda>_. []) True 1000 ?cs) ! k = HappeningNow \<and>
      viewText HappeningNow = Some ''Happening now'' \<and>
      k \<notin> cardIx ` set (upcoming parseEx 1000 ?cs)" by blast
  from this [rule_format, OF hyp]
  have h: "fst (updateCountdowns parseEx (\<lambda>_. []) True 1000 ?cs) ! 0 = HappeningNow"
    "0 \<notin> cardIx ` set (upcoming parseEx 1000 ?cs)" by simp_all
  have i: "cardIx ` set (upcoming parseEx 1000 ?cs) = {1}" by (simp add: u)
  from i b p h show ?thesis by simp
qed

text \<open>
  The condition that the clock reaches the target time of day is needed: where a change
  of the offset skips 10:30 of the Sunday, the date computed for the worship shows 11:30
  on the local clock.
\<close>

lemma skipped_target_time:
  "\<not> reachedOnce skipZone (MakeDate 3 (MakeTime 10 30 0 0)) \<and>
   nextWorship skipZone 0 = 297000000 \<and>
   getDay skipZone (nextWorship skipZone 0) = 0 \<and>
   getHours skipZone (nextWorship skipZone 0) = 11 \<and>
   getMinutes skipZone (nextWorship skipZone 0) = 30"
proof -
  have n: "nextWorship skipZone 0 = 297000000"
    by (simp add: nextWorship_def setHours_def setDatePlus_def zone_fields skipZone_def Let_def)
  show ?thesis
    unfolding n by (simp add: reachedOnce_def zone_fields skipZone_def)
qed

end
